theory Spec2Isabelle
  imports Complex_Main "HOL-Library.Log_Nat"
begin

section \<open>Shared types (types.ts)\<close>

text \<open>
  \<^verbatim>\<open>CountdownTime\<close> has four \<^verbatim>\<open>number\<close> fields. Every value the clock stores in
  them is either the literal 0 or the result of \<^verbatim>\<open>Math.floor\<close>, so they are integers.
\<close>

record CountdownTime =
  days :: int
  hours :: int
  minutes :: int
  seconds :: int

datatype AppState = IDLE | PROCESSING | COMPLETE | ERROR

text \<open>\<^verbatim>\<open>ThemeMode = '24' | 'ELF'\<close>; the string \<^verbatim>\<open>'24'\<close> is written \<open>Theme24\<close>.\<close>

datatype ThemeMode = Theme24 | ELF

section \<open>JavaScript arithmetic used by the clock\<close>

text \<open>
  JavaScript numbers are IEEE 754 doubles. A finite double other than zero is
  \<open>m * 2^e\<close> with an integer \<open>m\<close>, \<open>2^52 \<le> \<bar>m\<bar> < 2^53\<close>, and an arithmetic operator
  returns the exact result rounded to the nearest double, a tie going to the even \<open>m\<close>
  (\<open>roundDouble\<close>). For \<open>x > 0\<close>, \<open>exponent x\<close> is the integer \<open>k\<close> with
  \<open>2^k \<le> x < 2^(k+1)\<close>. The range of the exponent is not limited here: the numbers of
  the clock lie between \<open>2^-27\<close> and \<open>2^54\<close>, far from overflow and from the subnormal
  doubles.
\<close>

definition exponent :: "real \<Rightarrow> int" where
  "exponent x = (if 1 \<le> x then bitlen \<lfloor>x\<rfloor> - 1 else - bitlen (\<lceil>1 / x\<rceil> - 1))"

definition roundTiesToEven :: "real \<Rightarrow> int" where
  "roundTiesToEven x =
     (let n = \<lfloor>x\<rfloor>; r = x - of_int n in
      if r < 1 / 2 then n else if 1 / 2 < r then n + 1 else if even n then n else n + 1)"

definition roundDouble :: "real \<Rightarrow> real" where
  "roundDouble x =
     (if x = 0 then 0
      else let e = exponent \<bar>x\<bar> - 52
           in sgn x * of_int (roundTiesToEven (\<bar>x\<bar> / 2 powi e)) * 2 powi e)"

text \<open>
  \<open>js_sub\<close> and \<open>js_div\<close> are the operators \<^verbatim>\<open>-\<close> and \<^verbatim>\<open>/\<close> on doubles. \<open>js_rem\<close> is the
  operator \<^verbatim>\<open>%\<close>: the remainder takes the sign of the dividend, the quotient being
  truncated towards zero; the remainder of two doubles is a double, so nothing is rounded.
  It is only applied with the constant divisors 24 and 60. \<^verbatim>\<open>Math.floor\<close> is exact as well.

  A time value is an integral number of milliseconds of magnitude at most
  8640000000000000 (type \<open>int\<close>), which is a double; an invalid date (time value NaN)
  is outside the model.
\<close>

definition js_sub :: "real \<Rightarrow> real \<Rightarrow> real" where
  "js_sub a b = roundDouble (a - b)"

definition js_div :: "real \<Rightarrow> real \<Rightarrow> real" where
  "js_div a b = roundDouble (a / b)"

definition Math_floor :: "real \<Rightarrow> int" where
  "Math_floor x = \<lfloor>x\<rfloor>"

definition js_trunc :: "real \<Rightarrow> int" where
  "js_trunc x = (if x < 0 then \<lceil>x\<rceil> else \<lfloor>x\<rfloor>)"

definition js_rem :: "real \<Rightarrow> real \<Rightarrow> real" where
  "js_rem n d = n - d * of_int (js_trunc (n / d))"

section \<open>Clock.tsx: the countdown computation\<close>

text \<open>
  \<^verbatim>\<open>calculateTimeLeft\<close> closes over \<^verbatim>\<open>targetDate\<close> and reads the wall clock with
  \<^verbatim>\<open>new Date()\<close>; both time values are arguments here. The products of the constants
  \<^verbatim>\<open>1000 * 60 * 60 * 24\<close> and \<^verbatim>\<open>1000 * 60 * 60\<close> are small integers, so they are exact.
\<close>

definition calculateTimeLeft :: "int \<Rightarrow> int \<Rightarrow> CountdownTime" where
  "calculateTimeLeft targetDate now =
     (let difference = js_sub (of_int targetDate) (of_int now) in
      if difference \<le> 0 then \<lparr>days = 0, hours = 0, minutes = 0, seconds = 0\<rparr>
      else \<lparr>days = Math_floor (js_div difference (1000 * 60 * 60 * 24)),
            hours = Math_floor (js_rem (js_div difference (1000 * 60 * 60)) 24),
            minutes = Math_floor (js_rem (js_div (js_div difference 1000) 60) 60),
            seconds = Math_floor (js_rem (js_div difference 1000) 60)\<rparr>)"

text \<open>The milliseconds that the four displayed fields stand for.\<close>

definition fieldsMillis :: "CountdownTime \<Rightarrow> int" where
  "fieldsMillis c =
     days c * 86400000 + hours c * 3600000 + minutes c * 60000 + seconds c * 1000"

section \<open>Clock.tsx: seven-segment digits\<close>

definition SEGMENT_PATHS :: "(string \<times> string) list" where
  "SEGMENT_PATHS =
     [(''a'', ''M 22,10 L 78,10 L 68,26 L 32,26 Z''),
      (''b'', ''M 80,12 L 80,76 L 64,66 L 64,28 Z''),
      (''c'', ''M 80,84 L 80,148 L 64,132 L 64,94 Z''),
      (''d'', ''M 22,150 L 78,150 L 68,134 L 32,134 Z''),
      (''e'', ''M 20,84 L 20,148 L 36,132 L 36,94 Z''),
      (''f'', ''M 20,12 L 20,76 L 36,66 L 36,28 Z''),
      (''g'', ''M 22,80 L 32,70 L 68,70 L 78,80 L 68,90 L 32,90 Z'')]"

definition DIGIT_SEGMENTS :: "int \<rightharpoonup> string list" where
  "DIGIT_SEGMENTS = map_of
     [(0, [''a'', ''b'', ''c'', ''d'', ''e'', ''f'']),
      (1, [''b'', ''c'']),
      (2, [''a'', ''b'', ''d'', ''e'', ''g'']),
      (3, [''a'', ''b'', ''c'', ''d'', ''g'']),
      (4, [''b'', ''c'', ''f'', ''g'']),
      (5, [''a'', ''c'', ''d'', ''f'', ''g'']),
      (6, [''a'', ''c'', ''d'', ''e'', ''f'', ''g'']),
      (7, [''a'', ''b'', ''c'']),
      (8, [''a'', ''b'', ''c'', ''d'', ''e'', ''f'', ''g'']),
      (9, [''a'', ''b'', ''c'', ''d'', ''f'', ''g''])]"

text \<open>
  The \<^verbatim>\<open>value\<close> a digit receives is the result of \<^verbatim>\<open>parseInt\<close> on one character:
  an integer or NaN.
\<close>

datatype jsnumber = Num int | NaN

text \<open>
  \<^verbatim>\<open>DIGIT_SEGMENTS[value] || []\<close>: a missing key reads as \<^verbatim>\<open>undefined\<close>, which is
  falsy; every array, the empty one too, is truthy. NaN is not a key of the table.
\<close>

definition activeSegments :: "jsnumber \<Rightarrow> string list" where
  "activeSegments v =
     (case v of
        NaN \<Rightarrow> []
      | Num n \<Rightarrow> (case DIGIT_SEGMENTS n of None \<Rightarrow> [] | Some segs \<Rightarrow> segs))"

text \<open>
  What \<^verbatim>\<open>SevenSegmentDigit\<close> renders: the svg's class and glow filter, the fill class
  and the paths of the background group, and the fill class and the keyed paths of the
  active group (\<^verbatim>\<open>SEGMENT_PATHS[segKey]\<close> is \<open>None\<close> for a key the table lacks).
\<close>

record svg_digit =
  svg_class :: string
  svg_glow :: string
  inactive_fill :: string
  inactive_paths :: "string list"
  active_fill :: string
  active_paths :: "(string \<times> string option) list"

definition SevenSegmentDigit :: "jsnumber \<Rightarrow> bool \<Rightarrow> string \<Rightarrow> ThemeMode \<Rightarrow> svg_digit" where
  "SevenSegmentDigit v pulse className theme =
     (let activeColor = (if theme = Theme24 then ''fill-yellow-500'' else ''fill-red-600'');
          pulseColor = (if theme = Theme24 then ''fill-yellow-300'' else ''fill-red-400'');
          inactiveColor = (if theme = Theme24 then ''fill-yellow-900/10'' else ''fill-red-900/10'');
          glowStyle =
            (if theme = Theme24
             then (if pulse then ''drop-shadow(0 0 8px rgba(234,179,8,0.9))''
                   else ''drop-shadow(0 0 2px rgba(234,179,8,0.5))'')
             else (if pulse then ''drop-shadow(0 0 8px rgba(220, 38, 38, 0.5))''
                   else ''drop-shadow(0 0 1px rgba(220, 38, 38, 0.2))''))
      in \<lparr>svg_class = className,
          svg_glow = glowStyle,
          inactive_fill = inactiveColor,
          inactive_paths = map snd SEGMENT_PATHS,
          active_fill = ''transition-opacity duration-75 '' @ (if pulse then pulseColor else activeColor),
          active_paths = map (\<lambda>segKey. (segKey, map_of SEGMENT_PATHS segKey)) (activeSegments v)\<rparr>)"

section \<open>Clock.tsx: splitting a field into two digits\<close>

text \<open>
  \<^verbatim>\<open>value.toString()\<close> of an integer is its decimal numeral, with a minus sign when
  negative (for magnitudes below \<open>10\<^sup>2\<^sup>1\<close>, beyond which JavaScript switches to
  exponent notation; no field of a countdown between two dates gets near it).
\<close>

definition digitChar :: "nat \<Rightarrow> char" where
  "digitChar n = ''0123456789'' ! n"

fun decimal :: "nat \<Rightarrow> string" where
  "decimal n = (if n < 10 then [digitChar n] else decimal (n div 10) @ [digitChar (n mod 10)])"

declare decimal.simps [simp del]

definition toString :: "int \<Rightarrow> string" where
  "toString v = (if v < 0 then CHR ''-'' # decimal (nat (- v)) else decimal (nat v))"

definition padStart :: "string \<Rightarrow> nat \<Rightarrow> char \<Rightarrow> string" where
  "padStart s targetLength fill = replicate (targetLength - length s) fill @ s"

text \<open>\<^verbatim>\<open>s[i]\<close>: the character at \<open>i\<close>, or \<^verbatim>\<open>undefined\<close> past the end.\<close>

definition charAt :: "string \<Rightarrow> nat \<Rightarrow> char option" where
  "charAt s i = (if i < length s then Some (s ! i) else None)"

text \<open>
  \<^verbatim>\<open>parseInt\<close> of what \<^verbatim>\<open>s[i]\<close> gives: a decimal digit parses to its value; any other
  single character (a sign, a letter, a blank) and \<^verbatim>\<open>undefined\<close> parse to NaN.
\<close>

definition parseInt :: "char option \<Rightarrow> jsnumber" where
  "parseInt c =
     (case c of
        None \<Rightarrow> NaN
      | Some ch \<Rightarrow>
          (let k = (of_char ch :: nat) in
           if 48 \<le> k \<and> k \<le> 57 then Num (int k - 48) else NaN))"

text \<open>The first three lines of \<^verbatim>\<open>renderGroup\<close>: the pair \<^verbatim>\<open>(d1, d2)\<close>.\<close>

definition renderGroup_digits :: "int \<Rightarrow> jsnumber \<times> jsnumber" where
  "renderGroup_digits v =
     (let s = padStart (toString v) 2 CHR ''0'';
          d1 = parseInt (charAt s 0);
          d2 = parseInt (charAt s 1)
      in (d1, d2))"

section \<open>Clock.tsx: what the component renders\<close>

text \<open>
  A \<^verbatim>\<open>Date\<close> object is its identity together with its time value: \<^verbatim>\<open>useEffect\<close>
  compares dependencies with \<^verbatim>\<open>Object.is\<close>, and no code mutates a date after handing
  it to the clock. \<open>onTick\<close> is the identity of the callback function, \<open>None\<close> when
  the property is omitted; \<open>variant\<close> has its default \<^verbatim>\<open>'large'\<close> applied.
\<close>

record Date =
  objectId :: nat
  getTime :: int

datatype Variant = large | small

record ClockProps =
  targetDate :: Date
  onTick :: "nat option"
  variant :: Variant
  theme :: ThemeMode

record separator_svg =
  sep_class :: string
  sep_fill :: string

definition Separator :: "bool \<Rightarrow> string \<Rightarrow> ThemeMode \<Rightarrow> separator_svg" where
  "Separator pulse className th =
     (let color =
            (if th = Theme24 then (if pulse then ''fill-yellow-300'' else ''fill-yellow-500'')
             else (if pulse then ''fill-red-400'' else ''fill-red-600''))
      in \<lparr>sep_class = className, sep_fill = color @ '' transition-opacity duration-75''\<rparr>)"

definition digitClass :: "Variant \<Rightarrow> string" where
  "digitClass v =
     (if v = large then ''w-8 h-14 md:w-12 md:h-20 lg:w-14 lg:h-24'' else ''w-5 h-8 md:w-6 md:h-10'')"

definition separatorClass :: "Variant \<Rightarrow> string" where
  "separatorClass v =
     (if v = large then ''w-6 h-14 md:w-8 md:h-20 lg:w-10 lg:h-24'' else ''w-3 h-8 md:w-4 md:h-10'')"

definition labelClass :: "Variant \<Rightarrow> ThemeMode \<Rightarrow> string" where
  "labelClass v th =
     (if v = large
      then ''text-[10px] md:text-xs tracking-[0.2em] mt-1 uppercase ''
           @ (if th = Theme24 then ''text-yellow-700'' else ''text-red-800 font-serif font-bold'')
      else ''text-[8px] tracking-widest mt-0.5 uppercase ''
           @ (if th = Theme24 then ''text-yellow-700/80'' else ''text-red-800/80''))"

record group_view =
  digit1 :: svg_digit
  digit2 :: svg_digit
  label_text :: string
  label_class :: string

definition renderGroup :: "ClockProps \<Rightarrow> bool \<Rightarrow> int \<Rightarrow> string \<Rightarrow> group_view" where
  "renderGroup props pulse v label =
     \<lparr>digit1 = SevenSegmentDigit (fst (renderGroup_digits v)) pulse (digitClass (variant props)) (theme props),
      digit2 = SevenSegmentDigit (snd (renderGroup_digits v)) pulse (digitClass (variant props)) (theme props),
      label_text = label,
      label_class = labelClass (variant props) (theme props)\<rparr>"

datatype clock_child = Group group_view | Sep separator_svg

text \<open>The element tree the component returns for given properties and state.\<close>

definition Clock_render :: "ClockProps \<Rightarrow> CountdownTime \<Rightarrow> bool \<Rightarrow> clock_child list" where
  "Clock_render props timeLeft pulse =
     [Group (renderGroup props pulse (days timeLeft) ''Days''),
      Sep (Separator pulse (separatorClass (variant props)) (theme props)),
      Group (renderGroup props pulse (hours timeLeft) ''Hours''),
      Sep (Separator pulse (separatorClass (variant props)) (theme props)),
      Group (renderGroup props pulse (minutes timeLeft) ''Min''),
      Sep (Separator pulse (separatorClass (variant props)) (theme props)),
      Group (renderGroup props pulse (seconds timeLeft) ''Sec'')]"

text \<open>The active segments of every digit of a rendered tree, in document order.\<close>

fun segmentsDrawn :: "clock_child list \<Rightarrow> (string \<times> string option) list list" where
  "segmentsDrawn [] = []"
| "segmentsDrawn (Group g # cs) = active_paths (digit1 g) # active_paths (digit2 g) # segmentsDrawn cs"
| "segmentsDrawn (Sep x # cs) = segmentsDrawn cs"

section \<open>Clock.tsx: the effect and its timers\<close>

text \<open>
  The browser's timer table and the component instance are one state. A timer has the id
  that \<^verbatim>\<open>setInterval\<close> or \<^verbatim>\<open>setTimeout\<close> returned, the time it is due, its period (for
  an interval) and the closure it runs. The interval's closure holds the
  \<^verbatim>\<open>targetDate\<close> and \<^verbatim>\<open>onTick\<close> of the render that created it; both closures hold the
  state setters of their component instance.

  Time is in milliseconds. \<open>clk\<close> serves both as the wall clock that \<^verbatim>\<open>new Date()\<close>
  reads and as the clock of the timers: timers run in the order of their due times
  (creation order among equals), each exactly when it is due, and an interval is due
  again one period later. Delays and throttling of the event loop are not modelled.
\<close>

datatype timer_job =
    TickJob nat Date "nat option"
  | PulseOffJob nat

record timer =
  timer_id :: nat
  due :: int
  period :: "int option"
  job :: timer_job

text \<open>
  \<open>mounted\<close> holds the properties of the last render and the timer id that the pending
  cleanup function will clear; \<open>instance_no\<close> counts the component instances created so
  far. \<open>tickLog\<close> records every invocation of an \<^verbatim>\<open>onTick\<close> callback with its time, the
  latest first.
\<close>

record clock_world =
  clk :: int
  nextId :: nat
  timers :: "timer list"
  instance_no :: nat
  mounted :: "(ClockProps \<times> nat) option"
  timeLeft :: CountdownTime
  pulse :: bool
  tickLog :: "(nat \<times> int) list"

text \<open>\<^verbatim>\<open>setInterval\<close> and \<^verbatim>\<open>setTimeout\<close> hand out the id \<open>nextId\<close>.\<close>

definition newTimer :: "timer_job \<Rightarrow> int option \<Rightarrow> int \<Rightarrow> clock_world \<Rightarrow> clock_world" where
  "newTimer j p delay w =
     w\<lparr>timers := timers w @ [\<lparr>timer_id = nextId w, due = clk w + delay, period = p, job = j\<rparr>],
       nextId := nextId w + 1\<rparr>"

definition setInterval :: "timer_job \<Rightarrow> int \<Rightarrow> clock_world \<Rightarrow> clock_world" where
  "setInterval j ms = newTimer j (Some ms) ms"

definition setTimeout :: "timer_job \<Rightarrow> int \<Rightarrow> clock_world \<Rightarrow> clock_world" where
  "setTimeout j ms = newTimer j None ms"

definition clearInterval :: "nat \<Rightarrow> clock_world \<Rightarrow> clock_world" where
  "clearInterval tid w = w\<lparr>timers := filter (\<lambda>t. timer_id t \<noteq> tid) (timers w)\<rparr>"

text \<open>A state setter of an instance that is gone does nothing.\<close>

definition setState :: "nat \<Rightarrow> (clock_world \<Rightarrow> clock_world) \<Rightarrow> clock_world \<Rightarrow> clock_world" where
  "setState inst f w = (if mounted w \<noteq> None \<and> instance_no w = inst then f w else w)"

text \<open>The callback given to \<^verbatim>\<open>setInterval\<close>.\<close>

definition tick :: "nat \<Rightarrow> Date \<Rightarrow> nat option \<Rightarrow> clock_world \<Rightarrow> clock_world" where
  "tick inst target cb w =
     (let w1 = setState inst (\<lambda>v. v\<lparr>timeLeft := calculateTimeLeft (getTime target) (clk v)\<rparr>) w;
          w2 = setState inst (\<lambda>v. v\<lparr>pulse := True\<rparr>) w1;
          w3 = (case cb of None \<Rightarrow> w2 | Some f \<Rightarrow> w2\<lparr>tickLog := (f, clk w2) # tickLog w2\<rparr>)
      in setTimeout (PulseOffJob inst) 100 w3)"

text \<open>The body of the effect; the cleanup it returns clears \<open>timer\<close>.\<close>

definition runEffect :: "ClockProps \<Rightarrow> clock_world \<Rightarrow> clock_world" where
  "runEffect props w =
     (let w1 = w\<lparr>timeLeft := calculateTimeLeft (getTime (targetDate props)) (clk w)\<rparr>;
          timer = nextId w1;
          w2 = setInterval (TickJob (instance_no w1) (targetDate props) (onTick props)) 1000 w1
      in w2\<lparr>mounted := Some (props, timer)\<rparr>)"

text \<open>The dependency array is \<^verbatim>\<open>[targetDate, onTick]\<close>.\<close>

definition depsChanged :: "ClockProps \<Rightarrow> ClockProps \<Rightarrow> bool" where
  "depsChanged old new \<longleftrightarrow> targetDate old \<noteq> targetDate new \<or> onTick old \<noteq> onTick new"

text \<open>
  A render of the component by its parent: the first one creates an instance with the
  initial state and runs the effect; a later one runs the cleanup and the effect again
  when a dependency changed, and otherwise only takes the new properties.
\<close>

definition render :: "ClockProps \<Rightarrow> clock_world \<Rightarrow> clock_world" where
  "render props w =
     (case mounted w of
        None \<Rightarrow>
          runEffect props
            (w\<lparr>instance_no := instance_no w + 1,
               timeLeft := \<lparr>days = 0, hours = 0, minutes = 0, seconds = 0\<rparr>,
               pulse := False\<rparr>)
      | Some (old, timer) \<Rightarrow>
          if depsChanged old props then runEffect props (clearInterval timer w)
          else w\<lparr>mounted := Some (props, timer)\<rparr>)"

definition unmount :: "clock_world \<Rightarrow> clock_world" where
  "unmount w =
     (case mounted w of
        None \<Rightarrow> w
      | Some (old, timer) \<Rightarrow> (clearInterval timer w)\<lparr>mounted := None\<rparr>)"

fun earliest :: "timer \<Rightarrow> timer list \<Rightarrow> timer" where
  "earliest t [] = t"
| "earliest t (u # us) = earliest (if due u < due t then u else t) us"

definition nextTimer :: "timer list \<Rightarrow> timer option" where
  "nextTimer ts = (case ts of [] \<Rightarrow> None | t # us \<Rightarrow> Some (earliest t us))"

definition runJob :: "timer_job \<Rightarrow> clock_world \<Rightarrow> clock_world" where
  "runJob j w =
     (case j of
        TickJob inst target cb \<Rightarrow> tick inst target cb w
      | PulseOffJob inst \<Rightarrow> setState inst (\<lambda>v. v\<lparr>pulse := False\<rparr>) w)"

text \<open>
  The event loop runs the timer that is due first: the clock reaches its due time, a
  timeout leaves the table and an interval is due again one period later, and the
  closure runs.
\<close>

definition runTimer :: "clock_world \<Rightarrow> clock_world" where
  "runTimer w =
     (case nextTimer (timers w) of
        None \<Rightarrow> w
      | Some t \<Rightarrow>
          runJob (job t)
            (w\<lparr>clk := max (clk w) (due t),
               timers :=
                 (case period t of
                    None \<Rightarrow> filter (\<lambda>u. timer_id u \<noteq> timer_id t) (timers w)
                  | Some ms \<Rightarrow>
                      map (\<lambda>u. if timer_id u = timer_id t then u\<lparr>due := due t + ms\<rparr> else u)
                        (timers w))\<rparr>))"

text \<open>Time passes, but not beyond the moment the next timer is due.\<close>

definition elapse :: "nat \<Rightarrow> clock_world \<Rightarrow> clock_world" where
  "elapse dt w =
     w\<lparr>clk :=
         (case nextTimer (timers w) of
            None \<Rightarrow> clk w + int dt
          | Some t \<Rightarrow> max (clk w) (min (clk w + int dt) (due t)))\<rparr>"

datatype event = Render ClockProps | Unmount | RunTimer | Elapse nat

fun step :: "event \<Rightarrow> clock_world \<Rightarrow> clock_world" where
  "step (Render props) w = render props w"
| "step Unmount w = unmount w"
| "step RunTimer w = runTimer w"
| "step (Elapse dt) w = elapse dt w"

definition run :: "event list \<Rightarrow> clock_world \<Rightarrow> clock_world" where
  "run es w = foldl (\<lambda>v e. step e v) w es"

text \<open>The page at time \<open>t0\<close>, before the component is first rendered.\<close>

definition boot :: "int \<Rightarrow> clock_world" where
  "boot t0 =
     \<lparr>clk = t0, nextId = 1, timers = [], instance_no = 0, mounted = None,
      timeLeft = \<lparr>days = 0, hours = 0, minutes = 0, seconds = 0\<rparr>, pulse = False, tickLog = []\<rparr>"

text \<open>The repeating timers of a state, and the events that are not renders.\<close>

definition intervals :: "clock_world \<Rightarrow> timer list" where
  "intervals w = filter (\<lambda>t. period t \<noteq> None) (timers w)"

fun isRender :: "event \<Rightarrow> bool" where
  "isRender (Render props) = True"
| "isRender e = False"

text \<open>An event with the theme of its render replaced.\<close>

fun withTheme :: "ThemeMode \<Rightarrow> event \<Rightarrow> event" where
  "withTheme th (Render props) = Render (props\<lparr>theme := th\<rparr>)"
| "withTheme th e = e"

section \<open>Clock.tsx: well-formed states of the clock and its timers\<close>

text \<open>
  The facts that hold in every state the events can reach. Timer ids are below
  \<open>nextId\<close> and pairwise different; no timer is overdue.
\<close>

definition ids_ok :: "clock_world \<Rightarrow> bool" where
  "ids_ok w \<longleftrightarrow>
     (\<forall>t\<in>set (timers w). timer_id t < nextId w) \<and> distinct (map timer_id (timers w))"

definition clock_ok :: "clock_world \<Rightarrow> bool" where
  "clock_ok w \<longleftrightarrow> (\<forall>t\<in>set (timers w). clk w \<le> due t)"

text \<open>
  A timeout clears the pulse of some instance and is due within 100 ms. An interval has
  the period 1000, is due within one second, is the timer the pending cleanup will clear,
  and its closure holds the dependencies of the last render of the current instance.
\<close>

definition timeout_ok :: "clock_world \<Rightarrow> timer \<Rightarrow> bool" where
  "timeout_ok w t \<longleftrightarrow> (\<exists>i. job t = PulseOffJob i) \<and> due t \<le> clk w + 100"

definition interval_ok :: "clock_world \<Rightarrow> timer \<Rightarrow> bool" where
  "interval_ok w t \<longleftrightarrow>
     period t = Some 1000 \<and> due t \<le> clk w + 1000
     \<and> (\<exists>p. mounted w = Some (p, timer_id t)
            \<and> job t = TickJob (instance_no w) (targetDate p) (onTick p))"

definition jobs_ok :: "clock_world \<Rightarrow> bool" where
  "jobs_ok w \<longleftrightarrow>
     (\<forall>t\<in>set (timers w). if period t = None then timeout_ok w t else interval_ok w t)"

text \<open>A mounted clock has its interval in the timer table.\<close>

definition mounted_ok :: "clock_world \<Rightarrow> bool" where
  "mounted_ok w \<longleftrightarrow>
     (\<forall>p tid. mounted w = Some (p, tid) \<longrightarrow>
        (\<exists>t\<in>set (timers w). timer_id t = tid \<and> period t \<noteq> None))"

text \<open>
  While the pulse flag of the mounted clock is set, the timeout that clears it is pending
  and is due at least 900 ms before the next tick.
\<close>

definition pulse_ok :: "clock_world \<Rightarrow> bool" where
  "pulse_ok w \<longleftrightarrow>
     (mounted w \<noteq> None \<and> pulse w \<longrightarrow>
        (\<exists>u\<in>set (timers w). period u = None \<and> job u = PulseOffJob (instance_no w)
           \<and> (\<forall>t\<in>set (timers w). period t \<noteq> None \<longrightarrow> due u + 900 \<le> due t)))"

definition clock_inv :: "clock_world \<Rightarrow> bool" where
  "clock_inv w \<longleftrightarrow> ids_ok w \<and> clock_ok w \<and> jobs_ok w \<and> mounted_ok w \<and> pulse_ok w"

text \<open>The state with the theme of the mounted properties replaced.\<close>

definition rethemed :: "ThemeMode \<Rightarrow> clock_world \<Rightarrow> clock_world" where
  "rethemed th w = w\<lparr>mounted := map_option (\<lambda>(p, tid). (p\<lparr>theme := th\<rparr>, tid)) (mounted w)\<rparr>"

text \<open>
  From \<open>w\<close> to \<open>w'\<close> the cycle was restarted: the interval of \<open>w\<close> is gone from the
  timer table, and the one interval of \<open>w'\<close> is a new timer.
\<close>

definition cycleRestarted :: "clock_world \<Rightarrow> clock_world \<Rightarrow> bool" where
  "cycleRestarted w w' =
     (case mounted w of
        None \<Rightarrow> False
      | Some (p, tid) \<Rightarrow>
          tid \<notin> timer_id ` set (timers w') \<and> map timer_id (intervals w') = [nextId w])"

text \<open>No clock is mounted, and only pulse-clearing timeouts are pending.\<close>

definition quiet :: "clock_world \<Rightarrow> bool" where
  "quiet w \<longleftrightarrow> mounted w = None \<and> (\<forall>t\<in>set (timers w). \<exists>i. job t = PulseOffJob i)"

text \<open>
  The events that leave the dependencies \<^verbatim>\<open>[targetDate, onTick]\<close> of the properties
  \<open>p\<close> in place: time passing, timers running, and renders with the same target and
  callback.
\<close>

fun undisturbed :: "ClockProps \<Rightarrow> event \<Rightarrow> bool" where
  "undisturbed p (Render p') = (\<not> depsChanged p p')"
| "undisturbed p Unmount = False"
| "undisturbed p RunTimer = True"
| "undisturbed p (Elapse dt) = True"

text \<open>
  After the effect ran at time \<open>s\<close> with the callback \<open>cb\<close>, \<open>n\<close> ticks have happened:
  the log holds the callback at \<open>s + 1000\<close>, ..., \<open>s + 1000 n\<close> on top of the earlier
  log, the interval is due at \<open>s + 1000 (n + 1)\<close>, and the time is at least \<open>s + 1000 n\<close>.
\<close>

definition ticking :: "ClockProps \<Rightarrow> nat \<Rightarrow> int \<Rightarrow> (nat \<times> int) list \<Rightarrow> nat \<Rightarrow> clock_world \<Rightarrow> bool" where
  "ticking p cb s log0 n w \<longleftrightarrow>
     (\<exists>p' tid. mounted w = Some (p', tid) \<and> \<not> depsChanged p p')
   \<and> tickLog w = map (\<lambda>k. (cb, s + 1000 * int k)) (rev [1..<Suc n]) @ log0
   \<and> (\<forall>x\<in>set (intervals w). due x = s + 1000 * (int n + 1))
   \<and> s + 1000 * int n \<le> clk w"

text \<open>
  The properties \<^verbatim>\<open>App\<close> gives its setup clock:
  \<^verbatim>\<open><Clock targetDate={targetChristmas} onTick={handleTick} variant="small" theme={theme} />\<close>.
\<close>

definition appClockProps :: "Date \<Rightarrow> nat \<Rightarrow> ThemeMode \<Rightarrow> ClockProps" where
  "appClockProps target handleTick th =
     \<lparr>targetDate = target, onTick = Some handleTick, variant = small, theme = th\<rparr>"

section \<open>App.tsx: the countdown target\<close>

text \<open>
  The date arithmetic of ECMAScript that the effect uses, on time values in milliseconds
  since the epoch: \<open>Day\<close>, \<open>TimeWithinDay\<close>, \<open>DaysInYear\<close>, \<open>DayFromYear\<close>,
  \<open>TimeFromYear\<close>, \<open>YearFromTime\<close>, \<open>InLeapYear\<close>, \<open>DayWithinYear\<close>,
  \<open>MonthFromTime\<close>, \<open>DateFromTime\<close>, \<open>MakeDay\<close>, \<open>MakeTime\<close>, \<open>MakeDate\<close> and
  \<open>TimeClip\<close> (\<open>None\<close> is the time value NaN of an invalid date). All of these
  numbers are integers below \<open>2^53\<close> in magnitude, on which the arithmetic of doubles is
  exact, so they are of type \<open>int\<close>.
\<close>

definition msPerDay :: int where
  "msPerDay = 86400000"

definition Day :: "int \<Rightarrow> int" where
  "Day t = t div msPerDay"

definition TimeWithinDay :: "int \<Rightarrow> int" where
  "TimeWithinDay t = t mod msPerDay"

definition DaysInYear :: "int \<Rightarrow> int" where
  "DaysInYear y =
     (if y mod 4 \<noteq> 0 then 365
      else if y mod 100 \<noteq> 0 then 366
      else if y mod 400 \<noteq> 0 then 365
      else 366)"

definition DayFromYear :: "int \<Rightarrow> int" where
  "DayFromYear y = 365 * (y - 1970) + (y - 1969) div 4 - (y - 1901) div 100 + (y - 1601) div 400"

definition TimeFromYear :: "int \<Rightarrow> int" where
  "TimeFromYear y = msPerDay * DayFromYear y"

text \<open>
  \<open>YearFromTime t\<close> is the largest year \<open>y\<close> with \<open>TimeFromYear y \<le> t\<close>. It is found by
  going down from a year that is not before it: a year has at least 365 days after the
  epoch and at most 366 before it.
\<close>

function yearNotAfter :: "int \<Rightarrow> int \<Rightarrow> int" where
  "yearNotAfter t y = (if t < TimeFromYear y then yearNotAfter t (y - 1) else y)"
  by pat_completeness auto

termination
proof (relation "measure (\<lambda>(t, y). nat (TimeFromYear y - t))")
  show "wf (measure (\<lambda>(t, y). nat (TimeFromYear y - t)))"
    by simp
next
  fix t y :: int
  assume "t < TimeFromYear y"
  moreover have "DayFromYear (y - 1) < DayFromYear y"
  proof -
    define a b c a' b' c' where "a = (y - 1969) div 4" and "b = (y - 1901) div 100"
      and "c = (y - 1601) div 400" and "a' = (y - 1970) div 4" and "b' = (y - 1902) div 100"
      and "c' = (y - 1602) div 400"
    have "a' \<le> a" and "c' \<le> c"
      by (simp_all add: a_def a'_def c_def c'_def zdiv_mono1)
    moreover have "(y - 1901) div 100 \<le> (y - 1902 + 100) div 100"
      by (rule zdiv_mono1) simp_all
    then have "b \<le> b' + 1"
      by (simp add: b_def b'_def)
    ultimately have "365 * (y - 1971) + a' - b' + c' < 365 * (y - 1970) + a - b + c"
      by simp
    then show ?thesis
      by (simp add: DayFromYear_def a_def b_def c_def a'_def b'_def c'_def)
  qed
  then have "TimeFromYear (y - 1) < TimeFromYear y"
    by (simp add: TimeFromYear_def msPerDay_def)
  ultimately show "((t, y - 1), (t, y)) \<in> measure (\<lambda>(t, y). nat (TimeFromYear y - t))"
    by simp
qed

declare yearNotAfter.simps [simp del]

definition YearFromTime :: "int \<Rightarrow> int" where
  "YearFromTime t =
     yearNotAfter t
       (1970 + (if 0 \<le> t then t div (365 * msPerDay) else t div (366 * msPerDay)))"

definition InLeapYear :: "int \<Rightarrow> int" where
  "InLeapYear t = (if DaysInYear (YearFromTime t) = 366 then 1 else 0)"

definition DayWithinYear :: "int \<Rightarrow> int" where
  "DayWithinYear t = Day t - DayFromYear (YearFromTime t)"

definition MonthFromTime :: "int \<Rightarrow> int" where
  "MonthFromTime t =
     (let d = DayWithinYear t; l = InLeapYear t in
      if d < 31 then 0
      else if d < 59 + l then 1
      else if d < 90 + l then 2
      else if d < 120 + l then 3
      else if d < 151 + l then 4
      else if d < 181 + l then 5
      else if d < 212 + l then 6
      else if d < 243 + l then 7
      else if d < 273 + l then 8
      else if d < 304 + l then 9
      else if d < 334 + l then 10
      else 11)"

definition DateFromTime :: "int \<Rightarrow> int" where
  "DateFromTime t =
     (let d = DayWithinYear t; l = InLeapYear t; m = MonthFromTime t in
      if m = 0 then d + 1
      else if m = 1 then d - 30
      else if m = 2 then d - 58 - l
      else if m = 3 then d - 89 - l
      else if m = 4 then d - 119 - l
      else if m = 5 then d - 150 - l
      else if m = 6 then d - 180 - l
      else if m = 7 then d - 211 - l
      else if m = 8 then d - 242 - l
      else if m = 9 then d - 272 - l
      else if m = 10 then d - 303 - l
      else d - 333 - l)"

text \<open>
  \<open>MakeDay\<close> finds the day number of the first day of the month and adds the date; the
  first day of month \<open>m\<close> is \<open>daysBeforeMonth\<close> days into its year.
\<close>

definition daysBeforeMonth :: "int \<Rightarrow> int \<Rightarrow> int" where
  "daysBeforeMonth l m =
     (if m = 0 then 0
      else if m = 1 then 31
      else if m = 2 then 59 + l
      else if m = 3 then 90 + l
      else if m = 4 then 120 + l
      else if m = 5 then 151 + l
      else if m = 6 then 181 + l
      else if m = 7 then 212 + l
      else if m = 8 then 243 + l
      else if m = 9 then 273 + l
      else if m = 10 then 304 + l
      else 334 + l)"

definition MakeDay :: "int \<Rightarrow> int \<Rightarrow> int \<Rightarrow> int" where
  "MakeDay year month date =
     (let ym = year + month div 12;
          mn = month mod 12;
          l = (if DaysInYear ym = 366 then 1 else 0)
      in DayFromYear ym + daysBeforeMonth l mn + date - 1)"

definition MakeTime :: "int \<Rightarrow> int \<Rightarrow> int \<Rightarrow> int \<Rightarrow> int" where
  "MakeTime hour mn sec ms = hour * 3600000 + mn * 60000 + sec * 1000 + ms"

definition MakeDate :: "int \<Rightarrow> int \<Rightarrow> int" where
  "MakeDate day tm = day * msPerDay + tm"

definition TimeClip :: "int \<Rightarrow> int option" where
  "TimeClip t = (if \<bar>t\<bar> > 8640000000000000 then None else Some t)"

text \<open>
  Local time. The zone of the host enters through the two readings of the offset that
  ECMAScript calls \<^verbatim>\<open>LocalTZA(t, isUTC)\<close>: \<open>offsetUTC z t\<close> is the offset from UTC in
  force at the instant \<open>t\<close>, and \<open>offsetLocal z t\<close> is the offset for the local time \<open>t\<close>
  (for a local time that a change of the offset repeats or skips, the offset before the
  change). Both are tables of the host, so the zone is a parameter of the model; with
  daylight saving the offset at the current instant and the offset at December 25 differ
  for half of the year.
\<close>

record TimeZone =
  offsetUTC :: "int \<Rightarrow> int"
  offsetLocal :: "int \<Rightarrow> int"

definition LocalTime :: "TimeZone \<Rightarrow> int \<Rightarrow> int" where
  "LocalTime z t = t + offsetUTC z t"

definition UTC :: "TimeZone \<Rightarrow> int \<Rightarrow> int" where
  "UTC z t = t - offsetLocal z t"

text \<open>
  \<^verbatim>\<open>new Date(year, month, date)\<close>: a year from 0 to 99 stands for 1900 plus that year.
  \<^verbatim>\<open>getFullYear\<close>, \<^verbatim>\<open>getMonth\<close>, \<^verbatim>\<open>getDate\<close> and \<^verbatim>\<open>setFullYear(year)\<close> act on a valid
  time value.
\<close>

definition newDate :: "TimeZone \<Rightarrow> int \<Rightarrow> int \<Rightarrow> int \<Rightarrow> int option" where
  "newDate z year month date =
     (let yr = (if 0 \<le> year \<and> year \<le> 99 then 1900 + year else year);
          finalDate = MakeDate (MakeDay yr month date) (MakeTime 0 0 0 0)
      in TimeClip (UTC z finalDate))"

definition getFullYear :: "TimeZone \<Rightarrow> int \<Rightarrow> int" where
  "getFullYear z t = YearFromTime (LocalTime z t)"

definition getMonth :: "TimeZone \<Rightarrow> int \<Rightarrow> int" where
  "getMonth z t = MonthFromTime (LocalTime z t)"

definition getDate :: "TimeZone \<Rightarrow> int \<Rightarrow> int" where
  "getDate z t = DateFromTime (LocalTime z t)"

definition setFullYear :: "TimeZone \<Rightarrow> int \<Rightarrow> int \<Rightarrow> int option" where
  "setFullYear z t year =
     (let lt = LocalTime z t;
          newdate = MakeDate (MakeDay year (MonthFromTime lt) (DateFromTime lt)) (TimeWithinDay lt)
      in TimeClip (UTC z newdate))"

text \<open>
  The effect that sets \<^verbatim>\<open>targetChristmas\<close>, as a function of the zone and of the time
  value \<^verbatim>\<open>new Date()\<close> returns. \<^verbatim>\<open>now > xmas\<close> is false when \<^verbatim>\<open>xmas\<close> is invalid.
\<close>

definition targetChristmas :: "TimeZone \<Rightarrow> int \<Rightarrow> int option" where
  "targetChristmas z now =
     (let currentYear = getFullYear z now;
          xmas = newDate z currentYear 11 25
      in case xmas of
           None \<Rightarrow> None
         | Some x \<Rightarrow> if now > x then setFullYear z x (currentYear + 1) else Some x)"

text \<open>
  Stated from the claim's words, for comparison with the code. The local time midnight
  on December 25 of year \<open>y\<close> is seven days before the local time midnight on January 1
  of the next year; \<open>christmasMidnight\<close> is the instant the zone gives it. Local midnight
  on December 25 is \<^emph>\<open>plain\<close> in a zone when its offset is at most a day and the local
  time read at that instant is midnight again, that is, no change of the offset skips it.
\<close>

definition christmasLocal :: "int \<Rightarrow> int" where
  "christmasLocal y = msPerDay * (DayFromYear (y + 1) - 7)"

definition christmasMidnight :: "TimeZone \<Rightarrow> int \<Rightarrow> int" where
  "christmasMidnight z y = UTC z (christmasLocal y)"

definition plainMidnight :: "TimeZone \<Rightarrow> int \<Rightarrow> bool" where
  "plainMidnight z y \<longleftrightarrow>
     \<bar>offsetLocal z (christmasLocal y)\<bar> \<le> msPerDay
     \<and> LocalTime z (christmasMidnight z y) = christmasLocal y"

text \<open>
  Zones to run the effect in: a zone whose offset never changes, and the eastern time of
  North America with its daylight time of 2024, from 10 March 07:00 UTC to 3 November
  06:00 UTC (four hours behind UTC, five hours otherwise; only this period is tabulated).
\<close>

definition fixedOffset :: "int \<Rightarrow> TimeZone" where
  "fixedOffset c = \<lparr>offsetUTC = (\<lambda>t. c), offsetLocal = (\<lambda>t. c)\<rparr>"

definition easternTime :: TimeZone where
  "easternTime =
     \<lparr>offsetUTC = (\<lambda>t. if 1710054000000 \<le> t \<and> t < 1730613600000 then - 14400000 else - 18000000),
      offsetLocal = (\<lambda>t. if 1710039600000 \<le> t \<and> t < 1730599200000 then - 14400000 else - 18000000)\<rparr>"

section \<open>App.tsx: generating the image\<close>

text \<open>
  The state of \<^verbatim>\<open>App\<close> that \<^verbatim>\<open>handleGenerate\<close> reads and writes (\<open>appTheme\<close> is the
  state \<^verbatim>\<open>theme\<close>). An error is an \<^verbatim>\<open>Error\<close> object: \<^verbatim>\<open>generateCharacterImage\<close> rejects
  with nothing else.
\<close>

record App =
  appState :: AppState
  appTheme :: ThemeMode
  uploadedImage :: "string option"
  generatedImage :: "string option"
  errorMessage :: "string option"

record js_Error =
  message :: string

text \<open>
  What runs when the awaited call settles, on the state of that moment: other handlers
  may have run in between. \<^verbatim>\<open>error.message || "..."\<close> takes the fixed text when the
  message is empty.
\<close>

definition handleGenerate_settled :: "js_Error + string \<Rightarrow> App \<Rightarrow> App" where
  "handleGenerate_settled outcome s =
     (case outcome of
        Inr result \<Rightarrow> s\<lparr>generatedImage := Some result, appState := COMPLETE\<rparr>
      | Inl error \<Rightarrow>
          s\<lparr>errorMessage :=
               Some (if message error \<noteq> [] then message error else ''An unexpected error occurred.''),
             appState := ERROR\<rparr>)"

text \<open>
  \<^verbatim>\<open>handleGenerate\<close> with the image service as a parameter, the call settling at once.
  \<^verbatim>\<open>!uploadedImage\<close> holds for \<^verbatim>\<open>null\<close> and for the empty string.
\<close>

definition handleGenerate :: "(string \<Rightarrow> ThemeMode \<Rightarrow> js_Error + string) \<Rightarrow> App \<Rightarrow> App" where
  "handleGenerate generateCharacterImage s =
     (case uploadedImage s of
        None \<Rightarrow> s
      | Some img \<Rightarrow>
          if img = [] then s
          else handleGenerate_settled (generateCharacterImage img (appTheme s))
                 (s\<lparr>appState := PROCESSING, errorMessage := None\<rparr>))"

section \<open>Properties of rounding to a double\<close>

text \<open>
  For \<open>x > 0\<close> the rounded value is an integral multiple of \<open>2^(exponent x - 52)\<close>, it
  is positive, and it is at most \<open>2^(exponent x - 53)\<close> away from \<open>x\<close>. Below \<open>2^53\<close>
  every integer is a double: rounding leaves it as it is and takes no number across it.
\<close>

lemma exponent_bounds:
  assumes "0 < x"
  shows "2 powi exponent x \<le> x" and "x < 2 powi (exponent x + 1)"
proof -
  have "2 powi exponent x \<le> x \<and> x < 2 powi (exponent x + 1)"
  proof (cases "1 \<le> x")
    case True
    define n where "n = \<lfloor>x\<rfloor>"
    have n: "0 < n" using True by (simp add: n_def)
    have b: "1 \<le> bitlen n" using n by (simp add: bitlen_alt_def)
    have e: "exponent x = bitlen n - 1" using True by (simp add: exponent_def n_def)
    from bitlen_bounds [OF n] have lo: "2 ^ nat (bitlen n - 1) \<le> n" and hi: "n < 2 ^ nat (bitlen n)"
      by simp_all
    have "real_of_int (2 ^ nat (bitlen n - 1)) \<le> of_int n" using lo by (simp only: of_int_le_iff)
    also have "\<dots> \<le> x" by (simp add: n_def)
    finally have 1: "2 powi (bitlen n - 1) \<le> x"
      using b by (simp add: power_int_def)
    have "n + 1 \<le> 2 ^ nat (bitlen n)" using hi by simp
    then have "real_of_int (n + 1) \<le> of_int (2 ^ nat (bitlen n))" by (simp only: of_int_le_iff)
    moreover have "x < of_int (n + 1)" by (simp add: n_def)
    ultimately have 2: "x < 2 powi (bitlen n - 1 + 1)"
      using b by (simp add: power_int_def)
    show ?thesis using 1 2 by (simp add: e)
  next
    case False
    define y where "y = 1 / x"
    define c where "c = \<lceil>y\<rceil> - 1"
    define k where "k = bitlen c"
    have y: "1 < y" using False assms by (simp add: y_def)
    have c: "0 < c" using y by (simp add: c_def)
    have k: "1 \<le> k" using c by (simp add: bitlen_alt_def k_def)
    have e: "exponent x = - k" using False by (simp add: exponent_def k_def c_def y_def)
    from bitlen_bounds [OF c] have lo: "2 ^ nat (k - 1) \<le> c" and hi: "c < 2 ^ nat k"
      by (simp_all add: k_def)
    have "real_of_int (2 ^ nat (k - 1)) \<le> of_int c" using lo by (simp only: of_int_le_iff)
    also have "\<dots> < y" unfolding c_def by linarith
    finally have 1: "2 ^ nat (k - 1) < y" by simp
    have "c + 1 \<le> 2 ^ nat k" using hi by simp
    then have "real_of_int (c + 1) \<le> of_int (2 ^ nat k)" by (simp only: of_int_le_iff)
    moreover have "y \<le> of_int (c + 1)" by (simp add: c_def)
    ultimately have 2: "y \<le> 2 ^ nat k" by simp
    have x: "x = 1 / y" using assms by (simp add: y_def)
    have "1 / 2 ^ nat k \<le> x"
      unfolding x using 2 y by (simp add: frac_le)
    then have 3: "2 powi (- k) \<le> x"
      using k by (simp add: power_int_def field_simps)
    have "x < 1 / 2 ^ nat (k - 1)"
      unfolding x using 1 by (simp add: frac_less2)
    moreover have "(2::real) powi (- k + 1) = 1 / 2 ^ nat (k - 1)"
      using k power_int_minus [of "2::real" "k - 1"] by (simp add: power_int_def field_simps)
    ultimately have 4: "x < 2 powi (- k + 1)"
      by simp
    show ?thesis using 3 4 by (simp add: e)
  qed
  then show "2 powi exponent x \<le> x" and "x < 2 powi (exponent x + 1)" by simp_all
qed


lemma exponent_unique:
  assumes "0 < x" and "2 powi k \<le> x" and "x < 2 powi (k + 1)"
  shows "exponent x = k"
proof (rule ccontr)
  assume "exponent x \<noteq> k"
  then consider "exponent x + 1 \<le> k" | "k + 1 \<le> exponent x" by linarith
  then show False
  proof cases
    case 1
    then have "(2::real) powi (exponent x + 1) \<le> 2 powi k"
      by (intro power_int_increasing) simp_all
    with exponent_bounds(2) [OF assms(1)] assms(2) show False by simp
  next
    case 2
    then have "(2::real) powi (k + 1) \<le> 2 powi exponent x"
      by (intro power_int_increasing) simp_all
    with exponent_bounds(1) [OF assms(1)] assms(3) show False by simp
  qed
qed

lemma exponent_less:
  assumes "0 < x" and "x < 2 powi k"
  shows "exponent x < k"
proof (rule ccontr)
  assume "\<not> exponent x < k"
  then have "(2::real) powi k \<le> 2 powi exponent x"
    by (intro power_int_increasing) simp_all
  with exponent_bounds(1) [OF assms(1)] assms(2) show False by simp
qed

lemma roundTiesToEven_near:
  shows "\<bar>of_int (roundTiesToEven x) - x\<bar> \<le> 1 / 2"
  unfolding roundTiesToEven_def Let_def by (simp; linarith)

lemma roundTiesToEven_int: "roundTiesToEven (of_int n) = n"
  by (simp add: roundTiesToEven_def)

lemma roundTiesToEven_ge:
  assumes "of_int n \<le> x"
  shows "n \<le> roundTiesToEven x"
proof -
  have "n \<le> \<lfloor>x\<rfloor>" using assms by (simp add: le_floor_iff)
  then show ?thesis by (simp add: roundTiesToEven_def Let_def)
qed

lemma roundTiesToEven_le:
  assumes "x \<le> of_int n"
  shows "roundTiesToEven x \<le> n"
proof (cases "x = of_int n")
  case True
  then show ?thesis by (simp add: roundTiesToEven_int)
next
  case False
  with assms have "x < of_int n" by simp
  then have "\<lfloor>x\<rfloor> < n" by (simp add: floor_less_iff)
  then show ?thesis by (simp add: roundTiesToEven_def Let_def)
qed

lemma roundDouble_pos_eq:
  assumes "0 < x"
  shows "roundDouble x = of_int (roundTiesToEven (x / 2 powi (exponent x - 52))) * 2 powi (exponent x - 52)"
  using assms by (simp add: roundDouble_def Let_def)

lemma roundDouble_minus: "roundDouble (- x) = - roundDouble x"
  by (simp add: roundDouble_def Let_def sgn_minus)

lemma roundDouble_0: "roundDouble 0 = 0"
  by (simp add: roundDouble_def)

lemma significand_range:
  assumes "0 < x"
  shows "2 ^ 52 \<le> x / 2 powi (exponent x - 52)" and "x / 2 powi (exponent x - 52) < 2 ^ 53"
proof -
  have p: "(0::real) < 2 powi (exponent x - 52)" by simp
  have a: "(2::real) powi exponent x = 2 ^ 52 * 2 powi (exponent x - 52)"
    using power_int_add [of "2::real" 52 "exponent x - 52"] by simp
  have b: "(2::real) powi (exponent x + 1) = 2 ^ 53 * 2 powi (exponent x - 52)"
    using power_int_add [of "2::real" 53 "exponent x - 52"] by (simp add: add.commute)
  show "2 ^ 52 \<le> x / 2 powi (exponent x - 52)"
    using exponent_bounds(1) [OF assms] p unfolding a by (simp add: pos_le_divide_eq)
  show "x / 2 powi (exponent x - 52) < 2 ^ 53"
    using exponent_bounds(2) [OF assms] p unfolding b by (simp add: pos_divide_less_eq)
qed

lemma roundDouble_pos:
  assumes "0 < x"
  shows "0 < roundDouble x"
proof -
  have "(2::int) ^ 52 \<le> roundTiesToEven (x / 2 powi (exponent x - 52))"
    using significand_range(1) [OF assms] by (intro roundTiesToEven_ge) simp
  then have "0 < roundTiesToEven (x / 2 powi (exponent x - 52))" by simp
  then show ?thesis
    unfolding roundDouble_pos_eq [OF assms] by (simp add: zero_less_mult_iff)
qed

lemma roundDouble_sign:
  shows "roundDouble x \<le> 0 \<longleftrightarrow> x \<le> 0"
proof (cases "0 < x")
  case True
  with roundDouble_pos [OF True] show ?thesis by simp
next
  case False
  show ?thesis
  proof (cases "x = 0")
    case True
    then show ?thesis by (simp add: roundDouble_0)
  next
    case neg: False
    with False have "0 < - x" by simp
    from roundDouble_pos [OF this] False show ?thesis by (simp add: roundDouble_minus)
  qed
qed

lemma roundDouble_error:
  assumes "0 < x"
  shows "\<bar>roundDouble x - x\<bar> \<le> 2 powi (exponent x - 53)"
proof -
  define p where "p = (2::real) powi (exponent x - 52)"
  define m where "m = roundTiesToEven (x / p)"
  have p: "0 < p" by (simp add: p_def)
  have "roundDouble x - x = (of_int m - x / p) * p"
    using p by (simp add: roundDouble_pos_eq [OF assms] m_def p_def field_simps)
  then have "\<bar>roundDouble x - x\<bar> = \<bar>of_int m - x / p\<bar> * p"
    using p by (simp add: abs_mult)
  also have "\<dots> \<le> 1 / 2 * p"
    using roundTiesToEven_near [of "x / p"] p unfolding m_def by (intro mult_right_mono) simp_all
  also have "\<dots> = 2 powi (exponent x - 53)"
    using power_int_add [of "2::real" "exponent x - 53" 1] by (simp add: p_def)
  finally show ?thesis .
qed

lemma roundDouble_error_below:
  assumes "0 < x" and "x < 2 powi k"
  shows "\<bar>roundDouble x - x\<bar> \<le> 2 powi (k - 54)"
proof -
  have "exponent x - 53 \<le> k - 54"
    using exponent_less [OF assms] by simp
  then have "(2::real) powi (exponent x - 53) \<le> 2 powi (k - 54)"
    by (intro power_int_increasing) simp_all
  with roundDouble_error [OF assms(1)] show ?thesis by simp
qed

lemma scaled_int:
  assumes "e \<le> 0"
  shows "real_of_int n / 2 powi e = of_int (n * 2 ^ nat (- e))"
  using assms power_int_minus [of "2::real" "- e"] by (simp add: power_int_def field_simps)

lemma roundDouble_ge_int:
  assumes "0 < x" and "x < 2 ^ 53" and "of_int n \<le> x"
  shows "of_int n \<le> roundDouble x"
proof -
  define e where "e = exponent x - 52"
  have "x < 2 powi 53" using assms(2) by simp
  from exponent_less [OF assms(1) this] have e: "e \<le> 0" by (simp add: e_def)
  have p: "(0::real) < 2 powi e" by simp
  have "real_of_int n / 2 powi e \<le> x / 2 powi e"
    using assms(3) p by (simp add: divide_right_mono)
  then have "n * 2 ^ nat (- e) \<le> roundTiesToEven (x / 2 powi e)"
    unfolding scaled_int [OF e] by (rule roundTiesToEven_ge)
  then have "real_of_int (n * 2 ^ nat (- e)) \<le> of_int (roundTiesToEven (x / 2 powi e))"
    by (simp only: of_int_le_iff)
  then have "real_of_int n / 2 powi e \<le> of_int (roundTiesToEven (x / 2 powi e))"
    unfolding scaled_int [OF e] .
  then have "real_of_int n \<le> of_int (roundTiesToEven (x / 2 powi e)) * 2 powi e"
    using p by (simp add: pos_divide_le_eq)
  then show ?thesis
    by (simp add: roundDouble_pos_eq [OF assms(1)] e_def)
qed

lemma roundDouble_le_int:
  assumes "0 < x" and "x < 2 ^ 53" and "x \<le> of_int n"
  shows "roundDouble x \<le> of_int n"
proof -
  define e where "e = exponent x - 52"
  have "x < 2 powi 53" using assms(2) by simp
  from exponent_less [OF assms(1) this] have e: "e \<le> 0" by (simp add: e_def)
  have p: "(0::real) < 2 powi e" by simp
  have "x / 2 powi e \<le> real_of_int n / 2 powi e"
    using assms(3) p by (simp add: divide_right_mono)
  then have "roundTiesToEven (x / 2 powi e) \<le> n * 2 ^ nat (- e)"
    unfolding scaled_int [OF e] by (rule roundTiesToEven_le)
  then have "real_of_int (roundTiesToEven (x / 2 powi e)) \<le> of_int (n * 2 ^ nat (- e))"
    by (simp only: of_int_le_iff)
  then have "of_int (roundTiesToEven (x / 2 powi e)) \<le> real_of_int n / 2 powi e"
    unfolding scaled_int [OF e] .
  then have "of_int (roundTiesToEven (x / 2 powi e)) * 2 powi e \<le> real_of_int n"
    using p by (simp add: pos_le_divide_eq)
  then show ?thesis
    by (simp add: roundDouble_pos_eq [OF assms(1)] e_def)
qed

lemma roundDouble_int:
  assumes "0 < n" and "n < 2 ^ 53"
  shows "roundDouble (of_int n) = of_int n"
proof -
  have a: "0 < real_of_int n" and b: "real_of_int n < 2 ^ 53"
    using assms by simp_all
  from roundDouble_ge_int [OF a b, of n] roundDouble_le_int [OF a b, of n]
  show ?thesis by simp
qed

section \<open>Properties of the countdown computation\<close>

subsection \<open>Quotients of a difference below 2^53\<close>

text \<open>
  An integer below \<open>2^53\<close> is a double, and the double nearest to a quotient lies on
  the same side of every integer as the quotient. So \<^verbatim>\<open>Math.floor\<close> of the rounded
  quotient is the integer quotient as long as rounding up cannot reach the next integer:
  the quotient of an integer by \<open>c\<close> is at least \<open>1/c\<close> below it, and half the distance
  between neighbouring doubles is less.
\<close>

lemma floor_js_rem:
  assumes "0 \<le> q" and "0 < m"
  shows "Math_floor (js_rem q (of_int m)) = \<lfloor>q\<rfloor> mod m"
proof -
  have nonneg: "\<not> q / of_int m < 0"
    using assms by (simp add: not_less)
  have quot: "\<lfloor>q / of_int m\<rfloor> = \<lfloor>q\<rfloor> div m"
    using assms(2) by (simp add: floor_divide_real_eq_div)
  have "Math_floor (js_rem q (of_int m)) = \<lfloor>q - of_int (m * (\<lfloor>q\<rfloor> div m))\<rfloor>"
    using nonneg quot by (simp add: Math_floor_def js_rem_def js_trunc_def)
  also have "\<dots> = \<lfloor>q\<rfloor> - m * (\<lfloor>q\<rfloor> div m)"
    by (simp only: floor_diff_of_int)
  also have "\<dots> = \<lfloor>q\<rfloor> mod m"
    by (simp add: minus_mult_div_eq_mod)
  finally show ?thesis .
qed

lemma roundDouble_grid:
  assumes "0 < x"
  obtains m where "roundDouble x = of_int m * 2 powi (exponent x - 52)" and "m \<le> 2 ^ 53"
proof
  show "roundDouble x = of_int (roundTiesToEven (x / 2 powi (exponent x - 52))) * 2 powi (exponent x - 52)"
    by (rule roundDouble_pos_eq [OF assms])
  have "x / 2 powi (exponent x - 52) \<le> of_int (2 ^ 53)"
    using significand_range(2) [OF assms] by simp
  then show "roundTiesToEven (x / 2 powi (exponent x - 52)) \<le> 2 ^ 53"
    by (rule roundTiesToEven_le)
qed

lemma int_quotient_gap:
  fixes d c :: int
  assumes "0 < c"
  shows "real_of_int d / of_int c \<le> of_int (d div c) + 1 - 1 / of_int c"
proof -
  have "d = c * (d div c) + d mod c" by simp
  moreover have "d mod c < c" using assms by simp
  ultimately have "d < c * (d div c) + c" by linarith
  then have "d + 1 \<le> c * (d div c + 1)" by (simp add: algebra_simps)
  then have "real_of_int (d + 1) \<le> of_int (c * (d div c + 1))" by (simp only: of_int_le_iff)
  then have "real_of_int d + 1 \<le> of_int c * (of_int (d div c) + 1)" by simp
  then show ?thesis using assms by (simp add: field_simps)
qed

lemma floor_quotient:
  fixes d c :: int
  assumes d: "0 < d" "d < 2 ^ 53" and c: "0 < c"
    and k: "real_of_int d / of_int c < 2 powi k" and small: "of_int c * 2 powi (k - 54) < (1::real)"
  shows "\<lfloor>roundDouble (of_int d / of_int c)\<rfloor> = d div c"
proof -
  define q where "q = real_of_int d / of_int c"
  have q0: "0 < q" using d c by (simp add: q_def)
  have "q \<le> of_int d"
    using d c by (simp add: q_def field_simps mult_le_cancel_left1)
  moreover have "real_of_int d < of_int (2 ^ 53)"
    using d(2) by (simp only: of_int_less_iff)
  ultimately have q1: "q < 2 ^ 53" by simp
  have "of_int (d div c) \<le> q"
    unfolding q_def by (metis floor_divide_of_int_eq of_int_floor_le)
  from roundDouble_ge_int [OF q0 q1 this] have lo: "of_int (d div c) \<le> roundDouble q" .
  have "roundDouble q \<le> q + 2 powi (k - 54)"
    using roundDouble_error_below [OF q0, of k] k by (simp add: q_def abs_le_iff)
  also have "\<dots> \<le> of_int (d div c) + 1 - 1 / of_int c + 2 powi (k - 54)"
    using int_quotient_gap [OF c, of d] by (simp add: q_def)
  also have "\<dots> < of_int (d div c) + 1"
    using small c by (simp add: field_simps)
  finally have hi: "roundDouble q < of_int (d div c) + 1" .
  show ?thesis
    using lo hi by (simp add: floor_unique q_def)
qed

lemma days_quotient:
  fixes d :: int
  assumes "0 < d" and "d < 2 ^ 53"
  shows "\<lfloor>roundDouble (of_int d / 86400000)\<rfloor> = d div 86400000"
proof -
  have "real_of_int d < of_int (2 ^ 53)" using assms(2) by (simp only: of_int_less_iff)
  then have "real_of_int d / of_int 86400000 < 2 powi 27" by simp
  from floor_quotient [OF assms _ this] show ?thesis by simp
qed

lemma hours_quotient:
  fixes d :: int
  assumes "0 < d" and "d < 2 ^ 53"
  shows "\<lfloor>roundDouble (of_int d / 3600000)\<rfloor> = d div 3600000"
proof -
  have "real_of_int d < of_int (2 ^ 53)" using assms(2) by (simp only: of_int_less_iff)
  then have "real_of_int d / of_int 3600000 < 2 powi 32" by simp
  from floor_quotient [OF assms _ this] show ?thesis by simp
qed

lemma seconds_quotient:
  fixes d :: int
  assumes "0 < d" and "d < 2 ^ 53"
  shows "\<lfloor>roundDouble (of_int d / 1000)\<rfloor> = d div 1000"
proof -
  have "real_of_int d < of_int (2 ^ 53)" using assms(2) by (simp only: of_int_less_iff)
  then have "real_of_int d / of_int 1000 < 2 powi 44" by simp
  from floor_quotient [OF assms _ this] show ?thesis by simp
qed

text \<open>
  The minutes divide twice, \<^verbatim>\<open>difference / 1000 / 60\<close>, and each quotient is rounded. The
  first rounded quotient \<open>a\<close> is a double below the integer \<open>60 * (n + 1)\<close>, so it is at
  least one step \<open>p\<close> of its doubles below it; \<open>a / 60\<close> is then \<open>p / 60\<close> below \<open>n + 1\<close>,
  and the second rounding moves it by \<open>p / 64\<close> at most.
\<close>

lemma minutes_quotient:
  fixes d :: int
  assumes "0 < d" and "d < 2 ^ 53"
  shows "\<lfloor>roundDouble (roundDouble (of_int d / 1000) / 60)\<rfloor> = d div 60000"
proof -
  define x where "x = real_of_int d / 1000"
  define a where "a = roundDouble x"
  define s n where "s = d div 1000" and "n = d div 60000"
  define p where "p = (2::real) powi (exponent x - 52)"
  have x0: "0 < x" using assms(1) by (simp add: x_def)
  have "real_of_int d < of_int (2 ^ 53)" using assms(2) by (simp only: of_int_less_iff)
  then have x1: "x < 2 powi 44" by (simp add: x_def)
  have E: "exponent x - 52 \<le> 0" using exponent_less [OF x0 x1] by simp
  have p0: "0 < p" by (simp add: p_def)
  have a0: "0 < a" unfolding a_def by (rule roundDouble_pos [OF x0])
  have fl: "\<lfloor>a\<rfloor> = s"
    unfolding a_def x_def s_def by (rule seconds_quotient [OF assms])
  have sn: "s div 60 = n"
    using zdiv_zmult2_eq [of 60 d 1000] by (simp add: s_def n_def)
  have "s = 60 * (s div 60) + s mod 60" by simp
  moreover have "0 \<le> s mod 60" and "s mod 60 < 60" by simp_all
  ultimately have "60 * n \<le> s" and "s + 1 \<le> 60 * n + 60"
    unfolding sn by linarith+
  then have s: "60 * n \<le> s" "s + 1 \<le> 60 * (n + 1)"
    by simp_all
  have "real_of_int (60 * n) \<le> of_int s" using s(1) by (simp only: of_int_le_iff)
  moreover have "of_int s \<le> a" using fl by (metis of_int_floor_le)
  ultimately have lo: "60 * of_int n \<le> a" by simp
  have "a < of_int s + 1" using fl by linarith
  moreover have "real_of_int (s + 1) \<le> of_int (60 * (n + 1))" using s(2) by (simp only: of_int_le_iff)
  ultimately have hi: "a < of_int (60 * (n + 1))" by simp
  obtain m where m: "a = of_int m * p" and m53: "m \<le> 2 ^ 53"
    using roundDouble_grid [OF x0] unfolding a_def p_def by blast
  have "real_of_int m * p < of_int (60 * (n + 1)) / p * p"
    using hi p0 by (simp add: m)
  then have "real_of_int m < of_int (60 * (n + 1)) / p"
    using p0 by (simp only: mult_less_cancel_right_pos)
  then have "real_of_int m < of_int (60 * (n + 1) * 2 ^ nat (- (exponent x - 52)))"
    unfolding p_def scaled_int [OF E] .
  then have "m < 60 * (n + 1) * 2 ^ nat (- (exponent x - 52))"
    by (simp only: of_int_less_iff)
  then have "m + 1 \<le> 60 * (n + 1) * 2 ^ nat (- (exponent x - 52))"
    by simp
  then have "real_of_int (m + 1) \<le> of_int (60 * (n + 1) * 2 ^ nat (- (exponent x - 52)))"
    by (simp only: of_int_le_iff)
  then have "real_of_int (m + 1) \<le> of_int (60 * (n + 1)) / p"
    unfolding p_def scaled_int [OF E] .
  then have "real_of_int (m + 1) * p \<le> of_int (60 * (n + 1))"
    using p0 by (simp add: pos_le_divide_eq)
  then have step: "a + p \<le> 60 * (of_int n + 1)"
    by (simp add: m algebra_simps)
  define z where "z = a / 60"
  have z0: "0 < z" using a0 by (simp add: z_def)
  have zn: "of_int n \<le> z" using lo by (simp add: z_def)
  have zhi: "z \<le> of_int n + 1 - p / 60" using step by (simp add: z_def)
  have "0 \<le> n" using assms(1) by (simp add: n_def pos_imp_zdiv_nonneg_iff)
  then have "n + 1 \<le> s + 1" using s(1) by simp
  moreover have "s + 1 \<le> d" using assms(1) by (simp add: s_def) 
  ultimately have "n + 1 < 2 ^ 53" using assms(2) by simp
  then have "real_of_int (n + 1) < of_int (2 ^ 53)" by (simp only: of_int_less_iff)
  with zhi p0 have z1: "z < 2 ^ 53" by simp
  have "a \<le> 2 ^ 53 * p"
    using m53 p0 unfolding m by (simp only: mult_le_cancel_right_pos) (metis of_int_le_iff of_int_numeral of_int_power)
  also have "\<dots> = 2 powi (exponent x + 1)"
    using power_int_add [of "2::real" 53 "exponent x - 52"] by (simp add: p_def add.commute)
  finally have "z \<le> 2 powi (exponent x + 1) / 60" by (simp add: z_def)
  also have "\<dots> < 2 powi (exponent x + 1) / 32" by (simp add: frac_less2)
  also have "\<dots> = 2 powi (exponent x - 4)"
    using power_int_add [of "2::real" "exponent x - 4" 5] by (simp add: add.commute)
  finally have "z < 2 powi (exponent x - 4)" .
  from roundDouble_error_below [OF z0 this]
  have "roundDouble z \<le> z + 2 powi (exponent x - 58)" by (simp add: abs_le_iff)
  also have "2 powi (exponent x - 58) = p / 64"
    using power_int_add [of "2::real" "exponent x - 58" 6] by (simp add: p_def add.commute)
  finally have "roundDouble z \<le> of_int n + 1 - p / 60 + p / 64"
    using zhi by simp
  also have "\<dots> < of_int n + 1" using p0 by simp
  finally have up: "roundDouble z < of_int n + 1" .
  from roundDouble_ge_int [OF z0 z1 zn] up
  have "\<lfloor>roundDouble z\<rfloor> = n" by (simp add: floor_unique)
  then show ?thesis by (simp add: z_def a_def x_def n_def)
qed

subsection \<open>The four fields\<close>

lemma calculateTimeLeft_past:
  "T \<le> N \<Longrightarrow>
   calculateTimeLeft T N = \<lparr>days = 0, hours = 0, minutes = 0, seconds = 0\<rparr>"
  by (simp add: calculateTimeLeft_def js_sub_def roundDouble_sign)

lemma js_div_pos: "0 < a \<Longrightarrow> 0 < b \<Longrightarrow> 0 < js_div a b"
  unfolding js_div_def by (rule roundDouble_pos) simp

lemma calculateTimeLeft_fields:
  assumes "N < T"
  shows "0 \<le> days (calculateTimeLeft T N)"
    and "hours (calculateTimeLeft T N) = \<lfloor>js_div (js_sub (of_int T) (of_int N)) 3600000\<rfloor> mod 24"
    and "minutes (calculateTimeLeft T N) = \<lfloor>js_div (js_div (js_sub (of_int T) (of_int N)) 1000) 60\<rfloor> mod 60"
    and "seconds (calculateTimeLeft T N) = \<lfloor>js_div (js_sub (of_int T) (of_int N)) 1000\<rfloor> mod 60"
proof -
  define D where "D = js_sub (of_int T) (of_int N)"
  have D: "0 < D" "\<not> D \<le> 0"
    using assms roundDouble_pos [of "real_of_int T - of_int N"] by (simp_all add: D_def js_sub_def)
  have eq: "calculateTimeLeft T N =
          \<lparr>days = Math_floor (js_div D (1000 * 60 * 60 * 24)),
           hours = Math_floor (js_rem (js_div D (1000 * 60 * 60)) 24),
           minutes = Math_floor (js_rem (js_div (js_div D 1000) 60) 60),
           seconds = Math_floor (js_rem (js_div D 1000) 60)\<rparr>"
    using D(2) by (simp add: calculateTimeLeft_def Let_def flip: D_def)
  have "0 < js_div D 86400000" using D(1) by (simp add: js_div_pos)
  then show "0 \<le> days (calculateTimeLeft T N)"
    by (simp add: eq Math_floor_def)
  have "0 \<le> js_div D 3600000" using js_div_pos [OF D(1), of 3600000] by simp
  from floor_js_rem [OF this, of 24]
  show "hours (calculateTimeLeft T N) = \<lfloor>js_div D 3600000\<rfloor> mod 24"
    by (simp add: eq)
  have "0 < js_div D 1000" using D(1) by (simp add: js_div_pos)
  then have "0 \<le> js_div (js_div D 1000) 60" using js_div_pos [of "js_div D 1000" 60] by simp
  from floor_js_rem [OF this, of 60]
  show "minutes (calculateTimeLeft T N) = \<lfloor>js_div (js_div D 1000) 60\<rfloor> mod 60"
    by (simp add: eq)
  have "0 \<le> js_div D 1000" using js_div_pos [OF D(1), of 1000] by simp
  from floor_js_rem [OF this, of 60]
  show "seconds (calculateTimeLeft T N) = \<lfloor>js_div D 1000\<rfloor> mod 60"
    by (simp add: eq)
qed

lemma calculateTimeLeft_future:
  assumes "N < T" and "T - N < 2 ^ 53"
  shows "calculateTimeLeft T N =
           \<lparr>days = (T - N) div 86400000,
            hours = ((T - N) div 3600000) mod 24,
            minutes = ((T - N) div 60000) mod 60,
            seconds = ((T - N) div 1000) mod 60\<rparr>"
proof -
  define d where "d = T - N"
  have d: "0 < d" "d < 2 ^ 53" using assms by (simp_all add: d_def)
  have D: "js_sub (of_int T) (of_int N) = of_int d"
    using roundDouble_int [OF d] by (simp add: js_sub_def d_def)
  have pos: "\<not> real_of_int d \<le> 0" using d(1) by simp
  have "calculateTimeLeft T N =
          \<lparr>days = \<lfloor>js_div (of_int d) 86400000\<rfloor>,
           hours = hours (calculateTimeLeft T N),
           minutes = minutes (calculateTimeLeft T N),
           seconds = seconds (calculateTimeLeft T N)\<rparr>"
    using pos by (simp add: calculateTimeLeft_def Let_def D Math_floor_def)
  then show ?thesis
    unfolding calculateTimeLeft_fields(2-4) [OF assms(1)] D js_div_def
      days_quotient [OF d] hours_quotient [OF d] minutes_quotient [OF d] seconds_quotient [OF d]
    unfolding d_def .
qed

lemma fieldsMillis_future:
  assumes "N < T" and "T - N < 2 ^ 53"
  shows "fieldsMillis (calculateTimeLeft T N) = (T - N) div 1000 * 1000"
proof -
  define a where "a = (T - N) div 1000"
  have m: "(T - N) div 60000 = a div 60"
    using zdiv_zmult2_eq [of 60 "T - N" 1000] by (simp add: a_def)
  have h: "(T - N) div 3600000 = a div 60 div 60"
    using zdiv_zmult2_eq [of 60 "T - N" 60000] by (simp add: m)
  have d: "(T - N) div 86400000 = a div 60 div 60 div 24"
    using zdiv_zmult2_eq [of 24 "T - N" 3600000] by (simp add: h)
  have s1: "a div 60 * 60 + a mod 60 = a"
    by (rule div_mult_mod_eq)
  have s2: "a div 60 div 60 * 60 + a div 60 mod 60 = a div 60"
    by (rule div_mult_mod_eq)
  have s3: "a div 60 div 60 div 24 * 24 + a div 60 div 60 mod 24 = a div 60 div 60"
    by (rule div_mult_mod_eq)
  have "a div 60 div 60 div 24 * 86400000 + a div 60 div 60 mod 24 * 3600000
        + a div 60 mod 60 * 60000 + a mod 60 * 1000 = a * 1000"
    using s1 s2 s3 by linarith
  then show ?thesis
    by (simp add: calculateTimeLeft_future [OF assms] fieldsMillis_def m h d flip: a_def)
qed

lemma whole_seconds_bounds:
  fixes x :: int
  shows "x div 1000 * 1000 \<le> x" and "x - x div 1000 * 1000 < 1000"
proof -
  have "x - x div 1000 * 1000 = x mod 1000"
    by (rule minus_div_mult_eq_mod)
  moreover have "0 \<le> x mod 1000" and "x mod 1000 < 1000"
    by simp_all
  ultimately show "x div 1000 * 1000 \<le> x" and "x - x div 1000 * 1000 < 1000"
    by linarith+
qed

text \<open>
  Claim C1. When the target instant is not after the current instant, the computed
  duration is all zeros, and it is all zeros again at every later reading of the clock (each
  tick recomputes from the wall clock); no field of any computed duration is negative.
\<close>

theorem calculateTimeLeft_clamps_to_zero:
  "(T \<le> N \<longrightarrow>
      calculateTimeLeft T N = \<lparr>days = 0, hours = 0, minutes = 0, seconds = 0\<rparr>
      \<and> (\<forall>N' \<ge> N. calculateTimeLeft T N' = \<lparr>days = 0, hours = 0, minutes = 0, seconds = 0\<rparr>))
   \<and> 0 \<le> days (calculateTimeLeft T N) \<and> 0 \<le> hours (calculateTimeLeft T N)
   \<and> 0 \<le> minutes (calculateTimeLeft T N) \<and> 0 \<le> seconds (calculateTimeLeft T N)"
proof (cases "T \<le> N")
  case True
  then show ?thesis by (simp add: calculateTimeLeft_past)
next
  case False
  then have "N < T" by simp
  from calculateTimeLeft_fields [OF this] False show ?thesis
    by simp
qed

theorem calculateTimeLeft_clamps_to_zero_witness:
  "(1000::int) \<le> 6000
   \<and> calculateTimeLeft 1000 6000 = \<lparr>days = 0, hours = 0, minutes = 0, seconds = 0\<rparr>
   \<and> calculateTimeLeft 1000 7000 = \<lparr>days = 0, hours = 0, minutes = 0, seconds = 0\<rparr>
   \<and> 0 \<le> seconds (calculateTimeLeft 1000 6000)"
  using calculateTimeLeft_clamps_to_zero [of 1000 6000] by simp

text \<open>
  Claim C2, as the code has it. When the target instant is after the current instant,
  \<open>hours\<close>, \<open>minutes\<close> and \<open>seconds\<close> lie in \<open>[0,24)\<close>, \<open>[0,60)\<close> and \<open>[0,60)\<close>. When the
  difference is moreover less than \<open>2^53\<close> milliseconds (some 285 000 years), \<open>days\<close> is
  the number of whole days in the difference, and the milliseconds rebuilt from the four
  fields are at most the difference and less than one second below it. A difference of
  90061000 ms gives one day, one hour, one minute and one second.
\<close>

theorem calculateTimeLeft_decomposition:
  "(N < T \<longrightarrow>
      0 \<le> hours (calculateTimeLeft T N) \<and> hours (calculateTimeLeft T N) < 24
      \<and> 0 \<le> minutes (calculateTimeLeft T N) \<and> minutes (calculateTimeLeft T N) < 60
      \<and> 0 \<le> seconds (calculateTimeLeft T N) \<and> seconds (calculateTimeLeft T N) < 60)
   \<and> (N < T \<and> T - N < 2 ^ 53 \<longrightarrow>
      days (calculateTimeLeft T N) = (T - N) div 86400000
      \<and> fieldsMillis (calculateTimeLeft T N) \<le> T - N
      \<and> T - N - fieldsMillis (calculateTimeLeft T N) < 1000)
   \<and> calculateTimeLeft (N + 90061000) N = \<lparr>days = 1, hours = 1, minutes = 1, seconds = 1\<rparr>"
proof (intro conjI impI)
  show "calculateTimeLeft (N + 90061000) N = \<lparr>days = 1, hours = 1, minutes = 1, seconds = 1\<rparr>"
    by (simp add: calculateTimeLeft_future)
next
  assume future: "N < T"
  note eq = calculateTimeLeft_fields [OF future]
  show "0 \<le> hours (calculateTimeLeft T N)" and "hours (calculateTimeLeft T N) < 24"
    by (simp_all add: eq)
  show "0 \<le> minutes (calculateTimeLeft T N)" and "minutes (calculateTimeLeft T N) < 60"
    by (simp_all add: eq)
  show "0 \<le> seconds (calculateTimeLeft T N)" and "seconds (calculateTimeLeft T N) < 60"
    by (simp_all add: eq)
next
  assume "N < T \<and> T - N < 2 ^ 53"
  then have future: "N < T" and small: "T - N < 2 ^ 53" by simp_all
  show "days (calculateTimeLeft T N) = (T - N) div 86400000"
    by (simp add: calculateTimeLeft_future [OF future small])
  show "fieldsMillis (calculateTimeLeft T N) \<le> T - N"
    unfolding fieldsMillis_future [OF future small] by (rule whole_seconds_bounds)
  show "T - N - fieldsMillis (calculateTimeLeft T N) < 1000"
    unfolding fieldsMillis_future [OF future small] by (rule whole_seconds_bounds)
qed

theorem calculateTimeLeft_decomposition_witness:
  "(0::int) < 200000000 \<and> (200000000::int) - 0 < 2 ^ 53
   \<and> days (calculateTimeLeft 200000000 0) = 2
   \<and> hours (calculateTimeLeft 200000000 0) = 7
   \<and> minutes (calculateTimeLeft 200000000 0) = 33
   \<and> seconds (calculateTimeLeft 200000000 0) = 20
   \<and> fieldsMillis (calculateTimeLeft 200000000 0) \<le> 200000000
   \<and> 200000000 - fieldsMillis (calculateTimeLeft 200000000 0) < 1000
   \<and> calculateTimeLeft (0 + 90061000) 0 = \<lparr>days = 1, hours = 1, minutes = 1, seconds = 1\<rparr>"
  using calculateTimeLeft_decomposition [of 0 200000000]
  by (simp add: calculateTimeLeft_future)

text \<open>
  The part of claim C2 that fails: for every target after the current instant. From
  \<open>2^53\<close> milliseconds on, the difference of two time values is rounded. The last instant
  a \<^verbatim>\<open>Date\<close> can hold, read one millisecond after the first one, is 17279999999999999 ms
  away, one millisecond less than 200000000 days; the subtraction rounds that to
  17280000000000000, and the clock shows 200000000 days, which is more than the
  difference, where the whole days of the difference are 199999999.
\<close>

theorem calculateTimeLeft_rounds_large_difference:
  "(- 8639999999999999 :: int) < 8640000000000000
   \<and> calculateTimeLeft 8640000000000000 (- 8639999999999999)
       = \<lparr>days = 200000000, hours = 0, minutes = 0, seconds = 0\<rparr>
   \<and> (8640000000000000 - (- 8639999999999999)) div 86400000 = (199999999 :: int)
   \<and> days (calculateTimeLeft 8640000000000000 (- 8639999999999999))
       \<noteq> (8640000000000000 - (- 8639999999999999)) div 86400000
   \<and> \<not> fieldsMillis (calculateTimeLeft 8640000000000000 (- 8639999999999999))
         \<le> 8640000000000000 - (- 8639999999999999)"
  by code_simp

section \<open>Properties of the digit table\<close>

lemma activeSegments_digit:
  assumes "0 \<le> v" and "v \<le> 9"
  shows "activeSegments (Num v) \<noteq> []"
    and "set (activeSegments (Num v)) \<subseteq> set (map fst SEGMENT_PATHS)"
    and "distinct (activeSegments (Num v))"
proof -
  have "v \<in> {0, 1, 2, 3, 4, 5, 6, 7, 8, 9}"
    using assms by (simp, arith)
  then show "activeSegments (Num v) \<noteq> []"
    and "set (activeSegments (Num v)) \<subseteq> set (map fst SEGMENT_PATHS)"
    and "distinct (activeSegments (Num v))"
    by (auto simp: activeSegments_def DIGIT_SEGMENTS_def SEGMENT_PATHS_def)
qed

lemma activeSegments_other:
  assumes "v < 0 \<or> 9 < v"
  shows "activeSegments (Num v) = []"
  using assms by (auto simp: activeSegments_def DIGIT_SEGMENTS_def)

text \<open>
  Claim C3. The digit table is a function of the digit alone. For each integer from 0 to 9
  the active segment list is non-empty, has no repetition and names only segments among
  \<open>a\<close> to \<open>g\<close> (the keys of \<open>SEGMENT_PATHS\<close>); for every other integer, and for
  NaN, the digit renderer draws no active segment.
\<close>

theorem digit_segments_total:
  "(0 \<le> v \<and> v \<le> 9 \<longrightarrow>
      activeSegments (Num v) \<noteq> []
      \<and> distinct (activeSegments (Num v))
      \<and> set (activeSegments (Num v)) \<subseteq> {''a'', ''b'', ''c'', ''d'', ''e'', ''f'', ''g''}
      \<and> set (activeSegments (Num v)) \<subseteq> set (map fst SEGMENT_PATHS))
   \<and> (v < 0 \<or> 9 < v \<longrightarrow>
        activeSegments (Num v) = []
        \<and> active_paths (SevenSegmentDigit (Num v) pl cls th) = [])
   \<and> activeSegments NaN = []"
proof (intro conjI impI)
  assume digit: "0 \<le> v \<and> v \<le> 9"
  then have lo: "0 \<le> v" and hi: "v \<le> 9"
    by simp_all
  show "activeSegments (Num v) \<noteq> []" and "distinct (activeSegments (Num v))"
    and keys: "set (activeSegments (Num v)) \<subseteq> set (map fst SEGMENT_PATHS)"
    by (rule activeSegments_digit [OF lo hi])+
  from keys show "set (activeSegments (Num v)) \<subseteq> {''a'', ''b'', ''c'', ''d'', ''e'', ''f'', ''g''}"
    by (simp add: SEGMENT_PATHS_def)
next
  assume other: "v < 0 \<or> 9 < v"
  then show none: "activeSegments (Num v) = []"
    by (rule activeSegments_other)
  then show "active_paths (SevenSegmentDigit (Num v) pl cls th) = []"
    by (simp add: SevenSegmentDigit_def)
next
  show "activeSegments NaN = []"
    by (simp add: activeSegments_def)
qed

theorem digit_segments_total_witness:
  "(0::int) \<le> 4 \<and> (4::int) \<le> 9
   \<and> activeSegments (Num 4) = [''b'', ''c'', ''f'', ''g'']
   \<and> activeSegments (Num 4) \<noteq> []
   \<and> set (activeSegments (Num 4)) \<subseteq> {''a'', ''b'', ''c'', ''d'', ''e'', ''f'', ''g''}
   \<and> (9::int) < 10
   \<and> activeSegments (Num 10) = []
   \<and> active_paths (SevenSegmentDigit (Num 10) True ''w-5 h-8'' ELF) = []"
  using digit_segments_total [of 4 True "''w-5 h-8''" ELF]
    digit_segments_total [of 10 True "''w-5 h-8''" ELF]
  by (simp add: activeSegments_def DIGIT_SEGMENTS_def)

section \<open>Properties of the two-digit split\<close>

lemma of_char_digitChar:
  assumes "n < 10"
  shows "(of_char (digitChar n) :: nat) = 48 + n"
proof -
  have "n \<in> {0, 1, 2, 3, 4, 5, 6, 7, 8, 9}"
    using assms by (simp, arith)
  then show ?thesis
    by (auto simp: digitChar_def)
qed

lemma parseInt_digitChar: "n < 10 \<Longrightarrow> parseInt (Some (digitChar n)) = Num (int n)"
  by (simp add: parseInt_def of_char_digitChar)

lemma parseInt_zero: "parseInt (Some CHR ''0'') = Num 0"
  by (simp add: parseInt_def)

lemma decimal_small: "n < 10 \<Longrightarrow> decimal n = [digitChar n]"
  by (simp add: decimal.simps)

lemma decimal_two:
  "10 \<le> n \<Longrightarrow> n < 100 \<Longrightarrow> decimal n = [digitChar (n div 10), digitChar (n mod 10)]"
  by (subst decimal.simps) (simp add: decimal_small)

lemma renderGroup_digits_nat:
  assumes "n < 100"
  shows "renderGroup_digits (int n) = (Num (int (n div 10)), Num (int (n mod 10)))"
proof (cases "n < 10")
  case True
  then show ?thesis
    by (simp add: renderGroup_digits_def toString_def padStart_def charAt_def
        decimal_small parseInt_digitChar parseInt_zero)
next
  case False
  then have "decimal n = [digitChar (n div 10), digitChar (n mod 10)]"
    using assms by (simp add: decimal_two)
  moreover have "n div 10 < 10"
    using assms by simp
  ultimately show ?thesis
    by (simp add: renderGroup_digits_def toString_def padStart_def charAt_def
        parseInt_digitChar)
qed

text \<open>
  Up to 99 the pair is the tens digit and the units digit, a single-digit value \<open>n\<close>
  giving \<open>(0, n)\<close>.
\<close>

lemma renderGroup_digits_below_100:
  assumes "0 \<le> v" and "v < 100"
  shows "renderGroup_digits v = (Num (v div 10), Num (v mod 10))"
proof -
  have "nat v < 100" using assms by simp
  from renderGroup_digits_nat [OF this] show ?thesis
    using assms by (simp add: zdiv_int zmod_int)
qed

text \<open>
  Claim C4 says that for every non-negative field value the two rendered digits are its
  tens and units digits. With 358 days left the decimal string is \<open>''358''\<close>, which
  \<^verbatim>\<open>padStart(2, '0')\<close> leaves alone, and the renderer draws its first two characters:
  3 and 5, not the tens and units digits 5 and 8; the third character is never drawn.
\<close>

theorem renderGroup_digits_358:
  "renderGroup_digits 358 = (Num 3, Num 5)
   \<and> (Num (358 div 10 mod 10), Num (358 mod 10)) = (Num 5, Num 8)
   \<and> padStart (toString 358) 2 CHR ''0'' = ''358''"
  by (simp add: renderGroup_digits_def toString_def padStart_def charAt_def parseInt_def
      decimal.simps digitChar_def)

section \<open>Properties of the clock and its timers\<close>

lemma newTimer_fields:
  "timers (newTimer j p d w) = timers w @ [\<lparr>timer_id = nextId w, due = clk w + d, period = p, job = j\<rparr>]"
  "nextId (newTimer j p d w) = nextId w + 1"
  "clk (newTimer j p d w) = clk w"
  "mounted (newTimer j p d w) = mounted w"
  "instance_no (newTimer j p d w) = instance_no w"
  "pulse (newTimer j p d w) = pulse w"
  "timeLeft (newTimer j p d w) = timeLeft w"
  "tickLog (newTimer j p d w) = tickLog w"
  by (simp_all add: newTimer_def)

lemma clearInterval_fields:
  "timers (clearInterval tid w) = filter (\<lambda>t. timer_id t \<noteq> tid) (timers w)"
  "nextId (clearInterval tid w) = nextId w"
  "clk (clearInterval tid w) = clk w"
  "mounted (clearInterval tid w) = mounted w"
  "instance_no (clearInterval tid w) = instance_no w"
  "pulse (clearInterval tid w) = pulse w"
  "timeLeft (clearInterval tid w) = timeLeft w"
  "tickLog (clearInterval tid w) = tickLog w"
  by (simp_all add: clearInterval_def)

lemma tick_fields:
  "timers (tick i d cb w) = timers w @ [\<lparr>timer_id = nextId w, due = clk w + 100, period = None, job = PulseOffJob i\<rparr>]"
  "nextId (tick i d cb w) = nextId w + 1"
  "clk (tick i d cb w) = clk w"
  "mounted (tick i d cb w) = mounted w"
  "instance_no (tick i d cb w) = instance_no w"
  "pulse (tick i d cb w) = (if mounted w \<noteq> None \<and> instance_no w = i then True else pulse w)"
  "timeLeft (tick i d cb w) =
     (if mounted w \<noteq> None \<and> instance_no w = i then calculateTimeLeft (getTime d) (clk w) else timeLeft w)"
  "tickLog (tick i d cb w) = (case cb of None \<Rightarrow> tickLog w | Some f \<Rightarrow> (f, clk w) # tickLog w)"
  by (auto simp: tick_def setState_def setTimeout_def newTimer_fields Let_def split: option.splits)

lemma runEffect_fields:
  "timers (runEffect p w) =
     timers w @ [\<lparr>timer_id = nextId w, due = clk w + 1000, period = Some 1000,
                  job = TickJob (instance_no w) (targetDate p) (onTick p)\<rparr>]"
  "nextId (runEffect p w) = nextId w + 1"
  "clk (runEffect p w) = clk w"
  "mounted (runEffect p w) = Some (p, nextId w)"
  "instance_no (runEffect p w) = instance_no w"
  "pulse (runEffect p w) = pulse w"
  "timeLeft (runEffect p w) = calculateTimeLeft (getTime (targetDate p)) (clk w)"
  "tickLog (runEffect p w) = tickLog w"
  by (simp_all add: runEffect_def setInterval_def newTimer_fields Let_def)

lemma pulseOff_fields:
  "timers (setState i (\<lambda>v. v\<lparr>pulse := False\<rparr>) w) = timers w"
  "nextId (setState i (\<lambda>v. v\<lparr>pulse := False\<rparr>) w) = nextId w"
  "clk (setState i (\<lambda>v. v\<lparr>pulse := False\<rparr>) w) = clk w"
  "mounted (setState i (\<lambda>v. v\<lparr>pulse := False\<rparr>) w) = mounted w"
  "instance_no (setState i (\<lambda>v. v\<lparr>pulse := False\<rparr>) w) = instance_no w"
  "pulse (setState i (\<lambda>v. v\<lparr>pulse := False\<rparr>) w) =
     (if mounted w \<noteq> None \<and> instance_no w = i then False else pulse w)"
  "timeLeft (setState i (\<lambda>v. v\<lparr>pulse := False\<rparr>) w) = timeLeft w"
  "tickLog (setState i (\<lambda>v. v\<lparr>pulse := False\<rparr>) w) = tickLog w"
  by (simp_all add: setState_def)

lemma earliest_props:
  "earliest t us \<in> set (t # us) \<and> (\<forall>u\<in>set (t # us). due (earliest t us) \<le> due u)"
proof (induction us arbitrary: t)
  case Nil
  then show ?case by simp
next
  case (Cons a us)
  from Cons.IH [of "if due a < due t then a else t"] show ?case
    by (auto split: if_splits)
qed

lemma nextTimer_Some:
  assumes "nextTimer ts = Some t"
  shows "t \<in> set ts" and "\<And>u. u \<in> set ts \<Longrightarrow> due t \<le> due u"
  using assms earliest_props by (auto simp: nextTimer_def split: list.splits)

lemma nextTimer_None: "nextTimer ts = None \<longleftrightarrow> ts = []"
  by (simp add: nextTimer_def split: list.splits)

text \<open>What \<open>runTimer\<close> does, by the kind of the timer that is due first.\<close>

lemma runTimer_none: "timers w = [] \<Longrightarrow> runTimer w = w"
  by (simp add: runTimer_def nextTimer_def)

lemma runTimer_timeout:
  assumes "nextTimer (timers w) = Some t" and "period t = None" and "job t = PulseOffJob i"
  shows "runTimer w =
           setState i (\<lambda>v. v\<lparr>pulse := False\<rparr>)
             (w\<lparr>clk := max (clk w) (due t),
                timers := filter (\<lambda>u. timer_id u \<noteq> timer_id t) (timers w)\<rparr>)"
  using assms by (simp add: runTimer_def runJob_def)

lemma runTimer_interval:
  assumes "nextTimer (timers w) = Some t" and "period t = Some ms" and "job t = TickJob i d cb"
  shows "runTimer w =
           tick i d cb
             (w\<lparr>clk := max (clk w) (due t),
                timers := map (\<lambda>u. if timer_id u = timer_id t then u\<lparr>due := due t + ms\<rparr> else u) (timers w)\<rparr>)"
  using assms by (simp add: runTimer_def runJob_def)

lemma clock_inv_boot: "clock_inv (boot t0)"
  by (simp add: clock_inv_def ids_ok_def clock_ok_def jobs_ok_def mounted_ok_def pulse_ok_def boot_def)

subsection \<open>Consequences of the invariant\<close>

lemma interval_is_mounted:
  assumes "jobs_ok w" and "t \<in> set (timers w)" and "period t \<noteq> None"
  shows "interval_ok w t"
  using assms by (auto simp: jobs_ok_def)

lemma timeout_is_ok:
  assumes "jobs_ok w" and "t \<in> set (timers w)" and "period t = None"
  shows "timeout_ok w t"
  using assms by (auto simp: jobs_ok_def)

lemma interval_id:
  assumes "jobs_ok w" and "t \<in> set (timers w)" and "period t \<noteq> None" and "mounted w = Some (p, tid)"
  shows "timer_id t = tid"
  using interval_is_mounted [OF assms(1-3)] assms(4) by (auto simp: interval_ok_def)

lemma no_interval_unmounted:
  assumes "jobs_ok w" and "mounted w = None" and "t \<in> set (timers w)"
  shows "period t = None"
  using assms by (auto simp: jobs_ok_def interval_ok_def split: if_splits)

lemma same_id_same_timer:
  assumes "ids_ok w" and "t \<in> set (timers w)" and "u \<in> set (timers w)" and "timer_id t = timer_id u"
  shows "t = u"
  using assms by (auto simp: ids_ok_def dest: inj_on_eq_iff [OF iffD1 [OF distinct_map, THEN conjunct2]])

subsection \<open>Every event keeps the invariant\<close>

text \<open>Time passing.\<close>

lemma elapse_clk:
  assumes "clock_ok w"
  shows "clk w \<le> clk (elapse dt w)" and "\<And>t. t \<in> set (timers w) \<Longrightarrow> clk (elapse dt w) \<le> due t"
proof -
  show "clk w \<le> clk (elapse dt w)"
    by (simp add: elapse_def split: option.splits)
  fix t assume t: "t \<in> set (timers w)"
  then obtain n where n: "nextTimer (timers w) = Some n"
    by (cases "nextTimer (timers w)") (auto simp: nextTimer_None)
  have "due n \<le> due t" by (rule nextTimer_Some(2) [OF n t])
  moreover have "clk w \<le> due t" using assms t by (simp add: clock_ok_def)
  ultimately show "clk (elapse dt w) \<le> due t"
    by (simp add: elapse_def n)
qed

lemma elapse_fields:
  "timers (elapse dt w) = timers w"
  "nextId (elapse dt w) = nextId w"
  "mounted (elapse dt w) = mounted w"
  "instance_no (elapse dt w) = instance_no w"
  "pulse (elapse dt w) = pulse w"
  "timeLeft (elapse dt w) = timeLeft w"
  "tickLog (elapse dt w) = tickLog w"
  by (simp_all add: elapse_def)

lemma clock_inv_elapse:
  assumes "clock_inv w"
  shows "clock_inv (elapse dt w)"
proof -
  from assms have c: "clock_ok w" by (simp add: clock_inv_def)
  note mono = elapse_clk [OF c, where dt = dt]
  have "ids_ok (elapse dt w)"
    using assms by (simp add: clock_inv_def ids_ok_def elapse_fields)
  moreover have "clock_ok (elapse dt w)"
    using mono(2) by (simp add: clock_ok_def elapse_fields)
  moreover have "jobs_ok (elapse dt w)"
    unfolding jobs_ok_def
  proof
    fix t assume t: "t \<in> set (timers (elapse dt w))"
    then have t': "t \<in> set (timers w)" by (simp add: elapse_fields)
    show "if period t = None then timeout_ok (elapse dt w) t else interval_ok (elapse dt w) t"
    proof (cases "period t = None")
      case True
      with timeout_is_ok [of w t] assms t' mono(1) show ?thesis
        by (auto simp: clock_inv_def timeout_ok_def)
    next
      case False
      with interval_is_mounted [of w t] assms t' mono(1) show ?thesis
        by (auto simp: clock_inv_def interval_ok_def elapse_fields)
    qed
  qed
  moreover have "mounted_ok (elapse dt w)"
    using assms by (simp add: clock_inv_def mounted_ok_def elapse_fields)
  moreover have "pulse_ok (elapse dt w)"
    using assms by (simp add: clock_inv_def pulse_ok_def elapse_fields)
  ultimately show ?thesis by (simp add: clock_inv_def)
qed

lemma others_are_timeouts:
  assumes "jobs_ok w" and "mounted w = Some (old, tid)"
    and "t \<in> set (timers w)" and "timer_id t \<noteq> tid"
  shows "period t = None \<and> timeout_ok w t"
proof -
  have "period t = None"
  proof (rule ccontr)
    assume "period t \<noteq> None"
    from interval_id [OF assms(1,3) this assms(2)] assms(4) show False by simp
  qed
  then show ?thesis
    using timeout_is_ok [OF assms(1,3)] by simp
qed

text \<open>The first render.\<close>

lemma clock_inv_mount:
  assumes "clock_inv w" and "mounted w = None"
  shows "clock_inv (render p w)"
proof -
  define w0 where "w0 = w\<lparr>instance_no := instance_no w + 1,
      timeLeft := \<lparr>days = 0, hours = 0, minutes = 0, seconds = 0\<rparr>, pulse := False\<rparr>"
  have r: "render p w = runEffect p w0"
    using assms(2) by (simp add: render_def w0_def)
  have f: "timers w0 = timers w" "nextId w0 = nextId w" "clk w0 = clk w"
    "instance_no w0 = instance_no w + 1" "pulse w0 = False"
    by (simp_all add: w0_def)
  have old: "period t = None \<and> timeout_ok w t" if "t \<in> set (timers w)" for t
    using that assms no_interval_unmounted [of w t] timeout_is_ok [of w t] by (simp add: clock_inv_def)
  have "ids_ok (render p w)"
    using assms(1) by (auto simp: r clock_inv_def ids_ok_def runEffect_fields f)
  moreover have "clock_ok (render p w)"
    using assms(1) by (auto simp: r clock_inv_def clock_ok_def runEffect_fields f)
  moreover have "jobs_ok (render p w)"
    using old by (auto simp: r jobs_ok_def runEffect_fields f timeout_ok_def interval_ok_def)
  moreover have "mounted_ok (render p w)"
    by (auto simp: r mounted_ok_def runEffect_fields f)
  moreover have "pulse_ok (render p w)"
    by (simp add: r pulse_ok_def runEffect_fields f)
  ultimately show ?thesis by (simp add: clock_inv_def)
qed

text \<open>A render with a changed dependency.\<close>

lemma clock_inv_rerun:
  assumes "clock_inv w" and m: "mounted w = Some (old, tid)" and "depsChanged old p"
  shows "clock_inv (render p w)"
proof -
  have r: "render p w = runEffect p (clearInterval tid w)"
    using assms(2,3) by (simp add: render_def)
  from assms(1) have i: "ids_ok w" and c: "clock_ok w" and j: "jobs_ok w"
    and mo: "mounted_ok w" and pu: "pulse_ok w"
    by (simp_all add: clock_inv_def)
  have rest: "period t = None \<and> timeout_ok w t"
    if "t \<in> set (timers w)" and "timer_id t \<noteq> tid" for t
    using others_are_timeouts [OF j m that] .
  have "ids_ok (render p w)"
    using i by (auto simp: r ids_ok_def runEffect_fields clearInterval_fields distinct_map_filter)
  moreover have "clock_ok (render p w)"
    using c by (auto simp: r clock_ok_def runEffect_fields clearInterval_fields)
  moreover have "jobs_ok (render p w)"
    using rest
    by (auto simp: r jobs_ok_def runEffect_fields clearInterval_fields timeout_ok_def interval_ok_def)
  moreover have "mounted_ok (render p w)"
    by (auto simp: r mounted_ok_def runEffect_fields clearInterval_fields)
  moreover have "pulse_ok (render p w)"
  proof (cases "pulse w")
    case False
    then show ?thesis
      by (simp add: r pulse_ok_def runEffect_fields clearInterval_fields)
  next
    case True
    with pu m obtain u where u: "u \<in> set (timers w)" "period u = None"
      "job u = PulseOffJob (instance_no w)"
      by (auto simp: pulse_ok_def)
    from mo m obtain v where v: "v \<in> set (timers w)" "timer_id v = tid" "period v \<noteq> None"
      by (auto simp: mounted_ok_def)
    have "timer_id u \<noteq> tid"
      using same_id_same_timer [OF i u(1) v(1)] u(2) v(2,3) by auto
    moreover have "due u \<le> clk w + 100"
      using timeout_is_ok [OF j u(1,2)] by (simp add: timeout_ok_def)
    ultimately show ?thesis
      using u rest
      by (auto simp: r pulse_ok_def runEffect_fields clearInterval_fields intro!: bexI [of _ u])
  qed
  ultimately show ?thesis by (simp add: clock_inv_def)
qed

text \<open>A render with the same dependencies.\<close>

lemma clock_inv_same_deps:
  assumes "clock_inv w" and m: "mounted w = Some (old, tid)" and same: "\<not> depsChanged old p"
  shows "clock_inv (render p w)"
proof -
  have r: "render p w = w\<lparr>mounted := Some (p, tid)\<rparr>"
    using assms(2,3) by (simp add: render_def)
  from assms(1) have i: "ids_ok w" and c: "clock_ok w" and j: "jobs_ok w"
    and mo: "mounted_ok w" and pu: "pulse_ok w"
    by (simp_all add: clock_inv_def)
  have eq: "targetDate p = targetDate old" "onTick p = onTick old"
    using same by (simp_all add: depsChanged_def)
  have "ids_ok (render p w)"
    using i by (simp add: r ids_ok_def)
  moreover have "clock_ok (render p w)"
    using c by (simp add: r clock_ok_def)
  moreover have "jobs_ok (render p w)"
    using j m by (auto simp: r jobs_ok_def timeout_ok_def interval_ok_def eq)
  moreover have "mounted_ok (render p w)"
    using mo m by (simp add: r mounted_ok_def)
  moreover have "pulse_ok (render p w)"
    using pu m by (simp add: r pulse_ok_def)
  ultimately show ?thesis by (simp add: clock_inv_def)
qed

lemma clock_inv_render: "clock_inv w \<Longrightarrow> clock_inv (render p w)"
proof (cases "mounted w")
  case None
  assume "clock_inv w"
  then show ?thesis using None by (rule clock_inv_mount)
next
  case (Some a)
  assume w: "clock_inv w"
  obtain old tid where a: "a = (old, tid)" by (cases a)
  show ?thesis
    using clock_inv_rerun [OF w] clock_inv_same_deps [OF w] Some a by blast
qed

lemma clock_inv_unmount:
  assumes "clock_inv w"
  shows "clock_inv (unmount w)"
proof (cases "mounted w")
  case None
  then show ?thesis using assms by (simp add: unmount_def)
next
  case (Some a)
  obtain old tid where m: "mounted w = Some (old, tid)" using Some by (cases a) simp
  have r: "unmount w = (clearInterval tid w)\<lparr>mounted := None\<rparr>"
    using m by (simp add: unmount_def)
  from assms have i: "ids_ok w" and c: "clock_ok w" and j: "jobs_ok w"
    by (simp_all add: clock_inv_def)
  have rest: "period t = None \<and> timeout_ok w t"
    if "t \<in> set (timers w)" and "timer_id t \<noteq> tid" for t
    using others_are_timeouts [OF j m that] .
  have "ids_ok (unmount w)"
    using i by (auto simp: r ids_ok_def clearInterval_fields distinct_map_filter)
  moreover have "clock_ok (unmount w)"
    using c by (auto simp: r clock_ok_def clearInterval_fields)
  moreover have "jobs_ok (unmount w)"
    using rest by (auto simp: r jobs_ok_def clearInterval_fields timeout_ok_def)
  moreover have "mounted_ok (unmount w)"
    by (simp add: r mounted_ok_def)
  moreover have "pulse_ok (unmount w)"
    by (simp add: r pulse_ok_def)
  ultimately show ?thesis by (simp add: clock_inv_def)
qed

lemma due_next_is_clock:
  assumes "clock_ok w" and "nextTimer (timers w) = Some t"
  shows "max (clk w) (due t) = due t"
  using assms nextTimer_Some(1) [OF assms(2)] by (simp add: clock_ok_def max_def)

text \<open>A timeout runs.\<close>

lemma clock_inv_run_timeout:
  assumes "clock_inv w" and n: "nextTimer (timers w) = Some t" and pt: "period t = None"
  shows "clock_inv (runTimer w)"
proof -
  from assms(1) have i: "ids_ok w" and c: "clock_ok w" and j: "jobs_ok w"
    and mo: "mounted_ok w" and pu: "pulse_ok w"
    by (simp_all add: clock_inv_def)
  note tin = nextTimer_Some(1) [OF n] and first = nextTimer_Some(2) [OF n]
  from timeout_is_ok [OF j tin pt] obtain k where k: "job t = PulseOffJob k"
    by (auto simp: timeout_ok_def)
  define w1 where "w1 = w\<lparr>clk := due t, timers := filter (\<lambda>u. timer_id u \<noteq> timer_id t) (timers w)\<rparr>"
  have r: "runTimer w = setState k (\<lambda>v. v\<lparr>pulse := False\<rparr>) w1"
    using runTimer_timeout [OF n pt k] due_next_is_clock [OF c n] by (simp add: w1_def)
  have f: "timers w1 = filter (\<lambda>u. timer_id u \<noteq> timer_id t) (timers w)" "clk w1 = due t"
    "nextId w1 = nextId w" "mounted w1 = mounted w" "instance_no w1 = instance_no w"
    "pulse w1 = pulse w"
    by (simp_all add: w1_def)
  have now: "clk w \<le> due t"
    using c tin by (simp add: clock_ok_def)
  have "ids_ok (runTimer w)"
    using i by (auto simp: r ids_ok_def pulseOff_fields f distinct_map_filter)
  moreover have "clock_ok (runTimer w)"
    using first by (auto simp: r clock_ok_def pulseOff_fields f)
  moreover have "jobs_ok (runTimer w)"
    unfolding jobs_ok_def
  proof
    fix u assume "u \<in> set (timers (runTimer w))"
    then have u: "u \<in> set (timers w)"
      by (simp add: r pulseOff_fields f)
    show "if period u = None then timeout_ok (runTimer w) u else interval_ok (runTimer w) u"
    proof (cases "period u = None")
      case True
      with timeout_is_ok [OF j u] now show ?thesis
        by (auto simp: timeout_ok_def r pulseOff_fields f)
    next
      case False
      with interval_is_mounted [OF j u] now show ?thesis
        by (auto simp: interval_ok_def r pulseOff_fields f)
    qed
  qed
  moreover have "mounted_ok (runTimer w)"
    unfolding mounted_ok_def
  proof (intro allI impI)
    fix p tid assume "mounted (runTimer w) = Some (p, tid)"
    then have m: "mounted w = Some (p, tid)"
      by (simp add: r pulseOff_fields f)
    with mo obtain v where v: "v \<in> set (timers w)" "timer_id v = tid" "period v \<noteq> None"
      by (auto simp: mounted_ok_def)
    have "timer_id v \<noteq> timer_id t"
      using same_id_same_timer [OF i v(1) tin] v(3) pt by auto
    then show "\<exists>x\<in>set (timers (runTimer w)). timer_id x = tid \<and> period x \<noteq> None"
      using v by (auto simp: r pulseOff_fields f)
  qed
  moreover have "pulse_ok (runTimer w)"
    unfolding pulse_ok_def
  proof
    assume a: "mounted (runTimer w) \<noteq> None \<and> pulse (runTimer w)"
    then have m: "mounted w \<noteq> None" and other: "k \<noteq> instance_no w" and p: "pulse w"
      by (auto simp: r pulseOff_fields f split: if_splits)
    from pu m p obtain u where u: "u \<in> set (timers w)" "period u = None"
      "job u = PulseOffJob (instance_no w)"
      "\<forall>x\<in>set (timers w). period x \<noteq> None \<longrightarrow> due u + 900 \<le> due x"
      by (auto simp: pulse_ok_def)
    have "timer_id u \<noteq> timer_id t"
      using same_id_same_timer [OF i u(1) tin] u(3) k other by auto
    then show "\<exists>u\<in>set (timers (runTimer w)). period u = None
        \<and> job u = PulseOffJob (instance_no (runTimer w))
        \<and> (\<forall>x\<in>set (timers (runTimer w)). period x \<noteq> None \<longrightarrow> due u + 900 \<le> due x)"
      using u by (auto simp: r pulseOff_fields f intro!: bexI [of _ u])
  qed
  ultimately show ?thesis by (simp add: clock_inv_def)
qed

text \<open>The interval runs. The pulse flag is clear when it does.\<close>

lemma tick_shape:
  assumes "clock_inv w" and n: "nextTimer (timers w) = Some t" and pt: "period t \<noteq> None"
  shows "\<exists>p. mounted w = Some (p, timer_id t) \<and> \<not> pulse w
           \<and> runTimer w =
               tick (instance_no w) (targetDate p) (onTick p)
                 (w\<lparr>clk := due t,
                    timers := map (\<lambda>u. if timer_id u = timer_id t then u\<lparr>due := due t + 1000\<rparr> else u)
                                (timers w)\<rparr>)"
proof -
  from assms(1) have c: "clock_ok w" and j: "jobs_ok w" and pu: "pulse_ok w"
    by (simp_all add: clock_inv_def)
  note tin = nextTimer_Some(1) [OF n] and first = nextTimer_Some(2) [OF n]
  from interval_is_mounted [OF j tin pt] obtain p where
    p: "period t = Some 1000" "mounted w = Some (p, timer_id t)"
      "job t = TickJob (instance_no w) (targetDate p) (onTick p)"
    by (auto simp: interval_ok_def)
  have quiet: "\<not> pulse w"
  proof
    assume "pulse w"
    with pu p(2) obtain u where u: "u \<in> set (timers w)"
      "\<forall>x\<in>set (timers w). period x \<noteq> None \<longrightarrow> due u + 900 \<le> due x"
      by (auto simp: pulse_ok_def)
    from u(2) tin pt have "due u + 900 \<le> due t" by simp
    with first [OF u(1)] show False by simp
  qed
  show ?thesis
    using runTimer_interval [OF n p(1) p(3)] due_next_is_clock [OF c n] p(2) quiet by simp
qed

lemma clock_inv_run_interval:
  assumes "clock_inv w" and n: "nextTimer (timers w) = Some t" and pt: "period t \<noteq> None"
  shows "clock_inv (runTimer w)"
proof -
  from assms(1) have i: "ids_ok w" and c: "clock_ok w" and j: "jobs_ok w"
    and mo: "mounted_ok w" and pu: "pulse_ok w"
    by (simp_all add: clock_inv_def)
  note tin = nextTimer_Some(1) [OF n] and first = nextTimer_Some(2) [OF n]
  define w1 where "w1 = w\<lparr>clk := due t,
      timers := map (\<lambda>u. if timer_id u = timer_id t then u\<lparr>due := due t + 1000\<rparr> else u) (timers w)\<rparr>"
  from tick_shape [OF assms] obtain p where m: "mounted w = Some (p, timer_id t)"
    and r: "runTimer w = tick (instance_no w) (targetDate p) (onTick p) w1"
    by (auto simp: w1_def)
  have f: "timers w1 = map (\<lambda>u. if timer_id u = timer_id t then u\<lparr>due := due t + 1000\<rparr> else u) (timers w)"
    "clk w1 = due t" "nextId w1 = nextId w" "mounted w1 = mounted w"
    "instance_no w1 = instance_no w" "pulse w1 = pulse w"
    by (simp_all add: w1_def)
  have ids: "map timer_id (timers w1) = map timer_id (timers w)"
    by (simp add: f o_def if_distrib cong: if_cong)
  have now: "clk w \<le> due t"
    using c tin by (simp add: clock_ok_def)
  have others: "period u = None \<and> timeout_ok w u" if "u \<in> set (timers w)" "timer_id u \<noteq> timer_id t" for u
    using others_are_timeouts [OF j m that] .
  have "ids_ok (runTimer w)"
  proof -
    have "\<forall>u\<in>set (timers w1). timer_id u < nextId w"
      using i by (auto simp: ids_ok_def f)
    then show ?thesis
      using i by (auto simp: r ids_ok_def tick_fields f(3) ids)
  qed
  moreover have "clock_ok (runTimer w)"
    using first by (auto simp: r clock_ok_def tick_fields f)
  moreover have "jobs_ok (runTimer w)"
    unfolding jobs_ok_def
  proof
    fix u assume "u \<in> set (timers (runTimer w))"
    then consider (new) "u = \<lparr>timer_id = nextId w, due = due t + 100, period = None, job = PulseOffJob (instance_no w)\<rparr>"
      | (same) v where "v \<in> set (timers w)" "timer_id v = timer_id t" "u = v\<lparr>due := due t + 1000\<rparr>"
      | (other) "u \<in> set (timers w)" "timer_id u \<noteq> timer_id t"
      by (auto simp: r tick_fields f split: if_splits)
    then show "if period u = None then timeout_ok (runTimer w) u else interval_ok (runTimer w) u"
    proof cases
      case new
      then show ?thesis by (simp add: timeout_ok_def r tick_fields f)
    next
      case same
      have "v = t" using same_id_same_timer [OF i same(1) tin same(2)] .
      with interval_is_mounted [OF j tin pt] same(3) show ?thesis
        using pt by (auto simp: interval_ok_def r tick_fields f)
    next
      case other
      with others [OF other] now show ?thesis
        by (auto simp: timeout_ok_def r tick_fields f)
    qed
  qed
  moreover have "mounted_ok (runTimer w)"
    using m tin pt
    by (auto simp: mounted_ok_def r tick_fields f intro!: bexI [of _ "t\<lparr>due := due t + 1000\<rparr>"] rev_image_eqI [of t])
  moreover have "pulse_ok (runTimer w)"
    unfolding pulse_ok_def
  proof
    let ?n = "\<lparr>timer_id = nextId w, due = due t + 100, period = None, job = PulseOffJob (instance_no w)\<rparr>"
    have "?n \<in> set (timers (runTimer w))"
      by (simp add: r tick_fields f)
    moreover have "due ?n + 900 \<le> due x" if "x \<in> set (timers (runTimer w))" "period x \<noteq> None" for x
    proof -
      from that(1) consider (new) "x = ?n"
        | (same) v where "v \<in> set (timers w)" "timer_id v = timer_id t" "x = v\<lparr>due := due t + 1000\<rparr>"
        | (other) "x \<in> set (timers w)" "timer_id x \<noteq> timer_id t"
        by (auto simp: r tick_fields f split: if_splits)
      then show ?thesis
      proof cases
        case new
        with that(2) show ?thesis by simp
      next
        case same
        then show ?thesis by simp
      next
        case other
        with others [OF other] that(2) show ?thesis by simp
      qed
    qed
    ultimately show "\<exists>u\<in>set (timers (runTimer w)). period u = None
        \<and> job u = PulseOffJob (instance_no (runTimer w))
        \<and> (\<forall>x\<in>set (timers (runTimer w)). period x \<noteq> None \<longrightarrow> due u + 900 \<le> due x)"
      by (intro bexI [of _ ?n]) (auto simp: r tick_fields f(5))
  qed
  ultimately show ?thesis by (simp add: clock_inv_def)
qed

lemma clock_inv_runTimer:
  assumes "clock_inv w"
  shows "clock_inv (runTimer w)"
proof (cases "nextTimer (timers w)")
  case None
  then show ?thesis using assms by (simp add: runTimer_def)
next
  case (Some t)
  then show ?thesis
    using clock_inv_run_timeout [OF assms Some] clock_inv_run_interval [OF assms Some] by blast
qed

lemma clock_inv_step: "clock_inv w \<Longrightarrow> clock_inv (step e w)"
  by (cases e) (simp_all add: clock_inv_render clock_inv_unmount clock_inv_runTimer clock_inv_elapse)

lemma clock_inv_run: "clock_inv w \<Longrightarrow> clock_inv (run es w)"
  unfolding run_def by (induction es arbitrary: w) (simp_all add: clock_inv_step)

lemma clock_inv_reachable: "clock_inv (run es (boot t0))"
  by (rule clock_inv_run [OF clock_inv_boot])

subsection \<open>The theme is not read by the effect or the timers\<close>

lemma rethemed_fields:
  "timers (rethemed th w) = timers w"
  "nextId (rethemed th w) = nextId w"
  "clk (rethemed th w) = clk w"
  "instance_no (rethemed th w) = instance_no w"
  "pulse (rethemed th w) = pulse w"
  "timeLeft (rethemed th w) = timeLeft w"
  "tickLog (rethemed th w) = tickLog w"
  "mounted (rethemed th w) = None \<longleftrightarrow> mounted w = None"
  by (simp_all add: rethemed_def)

lemma depsChanged_theme:
  "depsChanged (old\<lparr>theme := th\<rparr>) (p\<lparr>theme := th'\<rparr>) = depsChanged old p"
  by (simp add: depsChanged_def)

lemma render_rethemed:
  "render (p\<lparr>theme := th\<rparr>) (rethemed th w) = rethemed th (render p w)"
  by (cases "mounted w")
    (auto simp: render_def rethemed_def runEffect_def setInterval_def newTimer_def
      clearInterval_def depsChanged_def Let_def)

lemma unmount_rethemed: "unmount (rethemed th w) = rethemed th (unmount w)"
  by (cases "mounted w") (auto simp: unmount_def rethemed_def clearInterval_def)

lemma rethemed_update:
  "(rethemed th w)\<lparr>clk := c\<rparr> = rethemed th (w\<lparr>clk := c\<rparr>)"
  "(rethemed th w)\<lparr>timers := ts\<rparr> = rethemed th (w\<lparr>timers := ts\<rparr>)"
  by (simp_all add: rethemed_def)

lemma elapse_rethemed: "elapse dt (rethemed th w) = rethemed th (elapse dt w)"
  by (simp add: elapse_def rethemed_fields rethemed_update cong: option.case_cong)

lemma setState_rethemed:
  assumes "\<And>v. f (rethemed th v) = rethemed th (f v)"
  shows "setState i f (rethemed th w) = rethemed th (setState i f w)"
  using assms by (simp add: setState_def rethemed_fields)

lemma runJob_rethemed: "runJob j (rethemed th w) = rethemed th (runJob j w)"
proof (cases j)
  case (TickJob i d cb)
  then show ?thesis
    by (cases cb) (auto simp: runJob_def tick_def setState_def setTimeout_def newTimer_def rethemed_def Let_def)
next
  case (PulseOffJob i)
  then show ?thesis
    by (auto simp: runJob_def setState_def rethemed_def)
qed

lemma runTimer_rethemed: "runTimer (rethemed th w) = rethemed th (runTimer w)"
  by (cases "nextTimer (timers w)")
    (simp_all add: runTimer_def rethemed_fields rethemed_update runJob_rethemed cong: option.case_cong)

lemma step_rethemed: "step (withTheme th e) (rethemed th w) = rethemed th (step e w)"
  by (cases e) (simp_all add: render_rethemed unmount_rethemed elapse_rethemed runTimer_rethemed)

lemma run_rethemed: "run (map (withTheme th) es) (rethemed th w) = rethemed th (run es w)"
  unfolding run_def by (induction es arbitrary: w) (simp_all add: step_rethemed)

lemma rethemed_boot: "rethemed th (boot t0) = boot t0"
  by (simp add: rethemed_def boot_def)

lemma theme_blind:
  assumes "map (withTheme th) es = map (withTheme th) es'"
  shows "rethemed th (run es (boot t0)) = rethemed th (run es' (boot t0))"
  using run_rethemed [of th es "boot t0"] run_rethemed [of th es' "boot t0"] assms
  by (simp add: rethemed_boot)

lemma Clock_render_theme:
  "segmentsDrawn (Clock_render (p\<lparr>theme := th\<rparr>) c pl) = segmentsDrawn (Clock_render p c pl)"
  by (simp add: Clock_render_def renderGroup_def SevenSegmentDigit_def)

text \<open>
  Claim C8. Two runs of the clock whose events differ only in the theme of the renders
  reach the same \<open>timeLeft\<close>, pulse flag, callback log, timer table and time. For any
  properties, state and value the two themes draw the same active segments in every digit
  of the tree and of each group; what differs is the fill class.
\<close>

theorem theme_changes_styling_only:
  "(map (withTheme Theme24) es = map (withTheme Theme24) es' \<longrightarrow>
      timeLeft (run es (boot t0)) = timeLeft (run es' (boot t0))
      \<and> pulse (run es (boot t0)) = pulse (run es' (boot t0))
      \<and> tickLog (run es (boot t0)) = tickLog (run es' (boot t0))
      \<and> timers (run es (boot t0)) = timers (run es' (boot t0))
      \<and> clk (run es (boot t0)) = clk (run es' (boot t0)))
   \<and> segmentsDrawn (Clock_render (p\<lparr>theme := Theme24\<rparr>) c pl)
       = segmentsDrawn (Clock_render (p\<lparr>theme := ELF\<rparr>) c pl)
   \<and> active_paths (SevenSegmentDigit d pl cls Theme24) = active_paths (SevenSegmentDigit d pl cls ELF)
   \<and> active_paths (digit1 (renderGroup (p\<lparr>theme := Theme24\<rparr>) pl v l))
       = active_paths (digit1 (renderGroup (p\<lparr>theme := ELF\<rparr>) pl v l))
   \<and> active_paths (digit2 (renderGroup (p\<lparr>theme := Theme24\<rparr>) pl v l))
       = active_paths (digit2 (renderGroup (p\<lparr>theme := ELF\<rparr>) pl v l))
   \<and> active_fill (SevenSegmentDigit d pl cls Theme24) \<noteq> active_fill (SevenSegmentDigit d pl cls ELF)"
proof (intro conjI impI)
  assume same: "map (withTheme Theme24) es = map (withTheme Theme24) es'"
  note eq = theme_blind [OF same, of t0]
  from arg_cong [OF eq, of timeLeft]
  show "timeLeft (run es (boot t0)) = timeLeft (run es' (boot t0))"
    by (simp add: rethemed_fields)
  from arg_cong [OF eq, of pulse]
  show "pulse (run es (boot t0)) = pulse (run es' (boot t0))"
    by (simp add: rethemed_fields)
  from arg_cong [OF eq, of tickLog]
  show "tickLog (run es (boot t0)) = tickLog (run es' (boot t0))"
    by (simp add: rethemed_fields)
  from arg_cong [OF eq, of timers]
  show "timers (run es (boot t0)) = timers (run es' (boot t0))"
    by (simp add: rethemed_fields)
  from arg_cong [OF eq, of clk]
  show "clk (run es (boot t0)) = clk (run es' (boot t0))"
    by (simp add: rethemed_fields)
next
  show "segmentsDrawn (Clock_render (p\<lparr>theme := Theme24\<rparr>) c pl)
       = segmentsDrawn (Clock_render (p\<lparr>theme := ELF\<rparr>) c pl)"
    by (simp add: Clock_render_theme)
  show "active_paths (SevenSegmentDigit d pl cls Theme24) = active_paths (SevenSegmentDigit d pl cls ELF)"
    by (simp add: SevenSegmentDigit_def)
  show "active_paths (digit1 (renderGroup (p\<lparr>theme := Theme24\<rparr>) pl v l))
       = active_paths (digit1 (renderGroup (p\<lparr>theme := ELF\<rparr>) pl v l))"
    and "active_paths (digit2 (renderGroup (p\<lparr>theme := Theme24\<rparr>) pl v l))
       = active_paths (digit2 (renderGroup (p\<lparr>theme := ELF\<rparr>) pl v l))"
    by (simp_all add: renderGroup_def SevenSegmentDigit_def)
  show "active_fill (SevenSegmentDigit d pl cls Theme24) \<noteq> active_fill (SevenSegmentDigit d pl cls ELF)"
    by (simp add: SevenSegmentDigit_def)
qed

theorem theme_changes_styling_only_witness:
  "let P = appClockProps \<lparr>objectId = 7, getTime = 90061000\<rparr> 3 Theme24;
       es = [Render P, Elapse 1000, RunTimer, Render P];
       es' = [Render (P\<lparr>theme := ELF\<rparr>), Elapse 1000, RunTimer, Render P]
   in map (withTheme Theme24) es = map (withTheme Theme24) es'
      \<and> es \<noteq> es'
      \<and> timeLeft (run es (boot 0)) = timeLeft (run es' (boot 0))
      \<and> pulse (run es (boot 0)) = pulse (run es' (boot 0))
      \<and> tickLog (run es (boot 0)) = tickLog (run es' (boot 0))
      \<and> timers (run es (boot 0)) = timers (run es' (boot 0))"
proof -
  define P where "P = appClockProps \<lparr>objectId = 7, getTime = 90061000\<rparr> 3 Theme24"
  define es where "es = [Render P, Elapse 1000, RunTimer, Render P]"
  define es' where "es' = [Render (P\<lparr>theme := ELF\<rparr>), Elapse 1000, RunTimer, Render P]"
  have a: "map (withTheme Theme24) es = map (withTheme Theme24) es'" "es \<noteq> es'"
    by (simp_all add: es_def es'_def P_def appClockProps_def)
  from theme_changes_styling_only [of es es' 0] a
  show ?thesis
    unfolding Let_def P_def [symmetric] es_def [symmetric] es'_def [symmetric]
    by simp
qed

subsection \<open>At most one interval\<close>

lemma one_element:
  assumes "distinct xs" and "set xs = {k}"
  shows "xs = [k]"
proof (cases xs)
  case Nil
  with assms show ?thesis by simp
next
  case (Cons a as)
  with assms have "a = k" and "set as \<subseteq> {k}" and "k \<notin> set as"
    by auto
  then have "as = []" by (cases as) auto
  with Cons \<open>a = k\<close> show ?thesis by simp
qed

lemma intervals_unmounted:
  assumes "clock_inv w" and "mounted w = None"
  shows "intervals w = []"
  using assms no_interval_unmounted [of w]
  by (auto simp: intervals_def clock_inv_def filter_empty_conv)

lemma intervals_mounted:
  assumes "clock_inv w" and m: "mounted w = Some (p, tid)"
  shows "map timer_id (intervals w) = [tid]"
proof (rule one_element)
  from assms(1) have i: "ids_ok w" and j: "jobs_ok w" and mo: "mounted_ok w"
    by (simp_all add: clock_inv_def)
  show "distinct (map timer_id (intervals w))"
    using i by (simp add: intervals_def ids_ok_def distinct_map_filter)
  from mo m obtain v where v: "v \<in> set (timers w)" "timer_id v = tid" "period v \<noteq> None"
    by (auto simp: mounted_ok_def)
  then have "tid \<in> set (map timer_id (intervals w))"
    by (auto simp: intervals_def)
  moreover have "timer_id t = tid" if "t \<in> set (intervals w)" for t
    using that interval_id [OF j _ _ m, of t] by (simp add: intervals_def)
  ultimately show "set (map timer_id (intervals w)) = {tid}"
    by auto
qed

lemma at_most_one_interval:
  assumes "clock_inv w"
  shows "length (intervals w) \<le> 1"
proof (cases "mounted w")
  case None
  then show ?thesis using intervals_unmounted [OF assms] by simp
next
  case (Some a)
  obtain p tid where "mounted w = Some (p, tid)" using Some by (cases a) simp
  from intervals_mounted [OF assms this] have "length (map timer_id (intervals w)) = 1"
    by simp
  then show ?thesis by simp
qed

subsection \<open>A cleared timer never comes back\<close>

text \<open>An event adds at most the timer with the id \<open>nextId\<close>, and ids only grow.\<close>

lemma ids_render:
  "timer_id ` set (timers (render p w)) \<subseteq> insert (nextId w) (timer_id ` set (timers w))"
  "nextId w \<le> nextId (render p w)"
  by (auto simp: render_def runEffect_fields clearInterval_fields split: option.splits)

lemma ids_unmount:
  "timer_id ` set (timers (unmount w)) \<subseteq> insert (nextId w) (timer_id ` set (timers w))"
  "nextId w \<le> nextId (unmount w)"
  by (auto simp: unmount_def clearInterval_fields split: option.splits)

lemma ids_runJob:
  "timer_id ` set (timers (runJob j w)) \<subseteq> insert (nextId w) (timer_id ` set (timers w))"
  "nextId w \<le> nextId (runJob j w)"
  by (cases j; auto simp: runJob_def tick_fields pulseOff_fields)+

lemma reschedule_ids:
  "map timer_id (map (\<lambda>u. if timer_id u = k then u\<lparr>due := d\<rparr> else u) xs) = map timer_id xs"
  by (induction xs) auto

lemma ids_runTimer:
  "timer_id ` set (timers (runTimer w)) \<subseteq> insert (nextId w) (timer_id ` set (timers w))"
  "nextId w \<le> nextId (runTimer w)"
proof -
  show "timer_id ` set (timers (runTimer w)) \<subseteq> insert (nextId w) (timer_id ` set (timers w))"
  proof (cases "nextTimer (timers w)")
    case None
    then show ?thesis by (auto simp: runTimer_def)
  next
    case (Some t)
    define ts where "ts = (case period t of
        None \<Rightarrow> filter (\<lambda>u. timer_id u \<noteq> timer_id t) (timers w)
      | Some ms \<Rightarrow> map (\<lambda>u. if timer_id u = timer_id t then u\<lparr>due := due t + ms\<rparr> else u) (timers w))"
    have sub: "timer_id ` set ts \<subseteq> timer_id ` set (timers w)"
    proof (cases "period t")
      case None
      then show ?thesis by (auto simp: ts_def)
    next
      case (Some ms)
      then have ts: "ts = map (\<lambda>u. if timer_id u = timer_id t then u\<lparr>due := due t + ms\<rparr> else u) (timers w)"
        by (simp add: ts_def)
      have "map timer_id ts = map timer_id (timers w)"
        unfolding ts by (rule reschedule_ids)
      then have "set (map timer_id ts) = set (map timer_id (timers w))"
        by (rule arg_cong)
      then show ?thesis
        unfolding set_map by (rule equalityD1)
    qed
    have "runTimer w = runJob (job t) (w\<lparr>clk := max (clk w) (due t), timers := ts\<rparr>)"
      using Some by (simp add: runTimer_def ts_def)
    with ids_runJob(1) [where j = "job t" and w = "w\<lparr>clk := max (clk w) (due t), timers := ts\<rparr>"] sub
    show ?thesis by auto
  qed
  show "nextId w \<le> nextId (runTimer w)"
  proof (cases "nextTimer (timers w)")
    case None
    then show ?thesis by (simp add: runTimer_def)
  next
    case (Some t)
    then show ?thesis
      using ids_runJob(2) [where j = "job t"]
      by (simp add: runTimer_def order_trans [OF _ ids_runJob(2)])
  qed
qed

lemma ids_step:
  "timer_id ` set (timers (step e w)) \<subseteq> insert (nextId w) (timer_id ` set (timers w))"
  "nextId w \<le> nextId (step e w)"
  by (cases e; simp add: ids_render ids_unmount ids_runTimer elapse_fields subset_insertI)+

lemma cleared_stays_cleared:
  assumes "tid < nextId w" and "tid \<notin> timer_id ` set (timers w)"
  shows "tid < nextId (run es w) \<and> tid \<notin> timer_id ` set (timers (run es w))"
  using assms
proof (induction es arbitrary: w)
  case Nil
  then show ?case by (simp add: run_def)
next
  case (Cons e es)
  have "tid < nextId (step e w)" and "tid \<notin> timer_id ` set (timers (step e w))"
    using Cons.prems ids_step [where e = e and w = w] by auto
  from Cons.IH [OF this] show ?case by (simp add: run_def)
qed

subsection \<open>After the clock is unmounted\<close>

lemma quiet_unmount:
  assumes "clock_inv w"
  shows "quiet (unmount w)"
proof -
  have u: "clock_inv (unmount w)" by (rule clock_inv_unmount [OF assms])
  have m: "mounted (unmount w) = None"
    by (cases "mounted w") (auto simp: unmount_def)
  have "\<exists>i. job t = PulseOffJob i" if "t \<in> set (timers (unmount w))" for t
  proof -
    from u have j: "jobs_ok (unmount w)" by (simp add: clock_inv_def)
    have "period t = None" by (rule no_interval_unmounted [OF j m that])
    from timeout_is_ok [OF j that this] show ?thesis by (simp add: timeout_ok_def)
  qed
  with m show ?thesis by (simp add: quiet_def)
qed

lemma unmount_state:
  "tickLog (unmount w) = tickLog w" "timeLeft (unmount w) = timeLeft w" "pulse (unmount w) = pulse w"
  by (cases "mounted w"; auto simp: unmount_def clearInterval_fields)+

lemma quiet_runTimer:
  assumes "quiet w"
  shows "quiet (runTimer w)" and "tickLog (runTimer w) = tickLog w"
    and "timeLeft (runTimer w) = timeLeft w" and "pulse (runTimer w) = pulse w"
proof -
  have "quiet (runTimer w) \<and> tickLog (runTimer w) = tickLog w
        \<and> timeLeft (runTimer w) = timeLeft w \<and> pulse (runTimer w) = pulse w"
  proof (cases "nextTimer (timers w)")
    case None
    then show ?thesis using assms by (simp add: runTimer_def)
  next
    case (Some t)
    from nextTimer_Some(1) [OF Some] assms obtain i where i: "job t = PulseOffJob i"
      by (auto simp: quiet_def)
    have "runTimer w = w\<lparr>clk := max (clk w) (due t),
        timers := (case period t of
            None \<Rightarrow> filter (\<lambda>u. timer_id u \<noteq> timer_id t) (timers w)
          | Some ms \<Rightarrow> map (\<lambda>u. if timer_id u = timer_id t then u\<lparr>due := due t + ms\<rparr> else u) (timers w))\<rparr>"
      using Some i assms by (simp add: runTimer_def runJob_def setState_def quiet_def)
    then show ?thesis
      using assms by (cases "period t") (auto simp: quiet_def)
  qed
  then show "quiet (runTimer w)" and "tickLog (runTimer w) = tickLog w"
    and "timeLeft (runTimer w) = timeLeft w" and "pulse (runTimer w) = pulse w"
    by simp_all
qed

lemma quiet_step:
  assumes "quiet w" and "\<not> isRender e"
  shows "quiet (step e w) \<and> tickLog (step e w) = tickLog w
         \<and> timeLeft (step e w) = timeLeft w \<and> pulse (step e w) = pulse w"
proof (cases e)
  case (Render p)
  with assms(2) show ?thesis by simp
next
  case Unmount
  with assms(1) show ?thesis by (simp add: unmount_def quiet_def)
next
  case RunTimer
  with quiet_runTimer [OF assms(1)] show ?thesis by simp
next
  case (Elapse dt)
  with assms(1) show ?thesis by (simp add: quiet_def elapse_fields)
qed

lemma quiet_run:
  assumes "quiet w" and "\<forall>e\<in>set es. \<not> isRender e"
  shows "quiet (run es w) \<and> tickLog (run es w) = tickLog w
         \<and> timeLeft (run es w) = timeLeft w \<and> pulse (run es w) = pulse w"
  using assms
proof (induction es arbitrary: w)
  case Nil
  then show ?case by (simp add: run_def)
next
  case (Cons e es)
  from Cons.prems have e: "\<not> isRender e" and es: "\<forall>e\<in>set es. \<not> isRender e"
    by simp_all
  note s = quiet_step [OF Cons.prems(1) e]
  from Cons.IH [OF conjunct1 [OF s] es] s show ?case
    by (simp add: run_def)
qed

lemma silent_after_unmount:
  assumes "clock_inv w" and "\<forall>e\<in>set es. \<not> isRender e"
  shows "tickLog (run es (unmount w)) = tickLog w"
    and "timeLeft (run es (unmount w)) = timeLeft w"
    and "pulse (run es (unmount w)) = pulse w"
    and "mounted (run es (unmount w)) = None"
  using quiet_run [OF quiet_unmount [OF assms(1)] assms(2)]
  by (simp_all add: unmount_state quiet_def)

subsection \<open>Renders and the cycle\<close>

lemma restart_on_change:
  assumes "clock_inv w" and m: "mounted w = Some (p, tid)" and d: "depsChanged p p'"
  shows "cycleRestarted w (render p' w)"
    and "tid \<notin> timer_id ` set (timers (run es (render p' w)))"
proof -
  have r: "render p' w = runEffect p' (clearInterval tid w)"
    using m d by (simp add: render_def)
  from assms(1) have i: "ids_ok w" and mo: "mounted_ok w" by (simp_all add: clock_inv_def)
  from mo m obtain v where v: "v \<in> set (timers w)" "timer_id v = tid"
    by (auto simp: mounted_ok_def)
  with i have lt: "tid < nextId w" by (auto simp: ids_ok_def)
  then have gone: "tid \<notin> timer_id ` set (timers (render p' w))"
    by (auto simp: r runEffect_fields clearInterval_fields)
  have "mounted (render p' w) = Some (p', nextId w)"
    by (simp add: r runEffect_fields clearInterval_fields)
  from intervals_mounted [OF clock_inv_render [OF assms(1)] this] gone
  show "cycleRestarted w (render p' w)"
    by (simp add: cycleRestarted_def m)
  have "tid < nextId (render p' w)"
    using lt by (simp add: r runEffect_fields clearInterval_fields)
  from cleared_stays_cleared [OF this gone]
  show "tid \<notin> timer_id ` set (timers (run es (render p' w)))" by simp
qed

lemma keep_on_same_deps:
  assumes m: "mounted w = Some (p, tid)" and d: "\<not> depsChanged p p'"
  shows "timers (render p' w) = timers w" and "nextId (render p' w) = nextId w"
  using assms by (simp_all add: render_def)

lemma theme_is_no_dependency: "\<not> depsChanged p (p\<lparr>theme := th\<rparr>)"
  by (simp add: depsChanged_def)

lemma cancel_on_unmount:
  assumes "clock_inv w" and m: "mounted w = Some (p, tid)"
  shows "intervals (unmount w) = []"
    and "tid \<notin> timer_id ` set (timers (run es (unmount w)))"
proof -
  have r: "unmount w = (clearInterval tid w)\<lparr>mounted := None\<rparr>"
    using m by (simp add: unmount_def)
  have "mounted (unmount w) = None" by (simp add: r)
  from intervals_unmounted [OF clock_inv_unmount [OF assms(1)] this]
  show "intervals (unmount w) = []" .
  from assms(1) have i: "ids_ok w" and mo: "mounted_ok w" by (simp_all add: clock_inv_def)
  from mo m obtain v where v: "v \<in> set (timers w)" "timer_id v = tid"
    by (auto simp: mounted_ok_def)
  with i have "tid < nextId (unmount w)" by (auto simp: ids_ok_def r clearInterval_fields)
  moreover have "tid \<notin> timer_id ` set (timers (unmount w))"
    by (auto simp: r clearInterval_fields)
  ultimately show "tid \<notin> timer_id ` set (timers (run es (unmount w)))"
    using cleared_stays_cleared by simp
qed

text \<open>
  Claim C5, as the code has it. In every reachable state at most one repeating timer is
  active: none while no clock is mounted, and exactly the one the cleanup will clear while
  one is. A render with a changed target or callback removes the old interval and starts a
  new one; a render that changes neither (a change of theme or size among them) leaves the
  timer table as it is, so the running cycle goes on. Unmounting removes the interval. A
  removed interval is never in the timer table again, and after an unmount no timer that
  runs changes \<open>timeLeft\<close> or \<open>pulse\<close> or invokes a callback until the next render.
\<close>

theorem one_interval_per_clock:
  assumes w: "w = run es (boot t0)"
  shows "length (intervals w) \<le> 1
    \<and> (mounted w = None \<longrightarrow> intervals w = [])
    \<and> (mounted w = Some (p, tid) \<longrightarrow>
          map timer_id (intervals w) = [tid]
          \<and> (depsChanged p p' \<longrightarrow>
                cycleRestarted w (render p' w)
                \<and> tid \<notin> timer_id ` set (timers (run es' (render p' w))))
          \<and> (\<not> depsChanged p p' \<longrightarrow>
                timers (render p' w) = timers w \<and> nextId (render p' w) = nextId w)
          \<and> timers (render (p\<lparr>theme := th\<rparr>) w) = timers w
          \<and> nextId (render (p\<lparr>theme := th\<rparr>) w) = nextId w
          \<and> intervals (unmount w) = []
          \<and> tid \<notin> timer_id ` set (timers (run es' (unmount w)))
          \<and> ((\<forall>e\<in>set es'. \<not> isRender e) \<longrightarrow>
                tickLog (run es' (unmount w)) = tickLog w
                \<and> timeLeft (run es' (unmount w)) = timeLeft w
                \<and> pulse (run es' (unmount w)) = pulse w
                \<and> mounted (run es' (unmount w)) = None))"
proof -
  have i: "clock_inv w" unfolding w by (rule clock_inv_reachable)
  show ?thesis
  proof (intro conjI impI)
    show "length (intervals w) \<le> 1" by (rule at_most_one_interval [OF i])
  next
    assume "mounted w = None"
    then show "intervals w = []" by (rule intervals_unmounted [OF i])
  next
    assume m: "mounted w = Some (p, tid)"
    show "map timer_id (intervals w) = [tid]" by (rule intervals_mounted [OF i m])
    show "timers (render (p\<lparr>theme := th\<rparr>) w) = timers w"
      and "nextId (render (p\<lparr>theme := th\<rparr>) w) = nextId w"
      by (rule keep_on_same_deps [OF m theme_is_no_dependency])+
    show "intervals (unmount w) = []"
      and "tid \<notin> timer_id ` set (timers (run es' (unmount w)))"
      by (rule cancel_on_unmount [OF i m])+
    {
      assume d: "depsChanged p p'"
      show "cycleRestarted w (render p' w)"
        and "tid \<notin> timer_id ` set (timers (run es' (render p' w)))"
        by (rule restart_on_change [OF i m d])+
    }
    {
      assume d: "\<not> depsChanged p p'"
      show "timers (render p' w) = timers w" and "nextId (render p' w) = nextId w"
        by (rule keep_on_same_deps [OF m d])+
    }
    {
      assume e: "\<forall>e\<in>set es'. \<not> isRender e"
      show "tickLog (run es' (unmount w)) = tickLog w"
        and "timeLeft (run es' (unmount w)) = timeLeft w"
        and "pulse (run es' (unmount w)) = pulse w"
        and "mounted (run es' (unmount w)) = None"
        by (rule silent_after_unmount [OF i e])+
    }
  qed
qed

lemma sample_run:
  "run [Render (appClockProps \<lparr>objectId = 7, getTime = 90061000\<rparr> 3 Theme24), Elapse 1000, RunTimer] (boot 0)
   = \<lparr>clk = 1000, nextId = 3,
      timers = [\<lparr>timer_id = 1, due = 2000, period = Some 1000,
                  job = TickJob 1 \<lparr>objectId = 7, getTime = 90061000\<rparr> (Some 3)\<rparr>,
                \<lparr>timer_id = 2, due = 1100, period = None, job = PulseOffJob 1\<rparr>],
      instance_no = 1,
      mounted = Some (appClockProps \<lparr>objectId = 7, getTime = 90061000\<rparr> 3 Theme24, 1),
      timeLeft = \<lparr>days = 1, hours = 1, minutes = 1, seconds = 0\<rparr>,
      pulse = True, tickLog = [(3, 1000)]\<rparr>"
  by (simp add: run_def boot_def render_def runEffect_def setInterval_def newTimer_def
      elapse_def nextTimer_def runTimer_def runJob_def tick_def setState_def setTimeout_def
      appClockProps_def Let_def calculateTimeLeft_future)

theorem one_interval_per_clock_witness:
  "let P = appClockProps \<lparr>objectId = 7, getTime = 90061000\<rparr> 3 Theme24;
       P' = appClockProps \<lparr>objectId = 7, getTime = 90061000\<rparr> 4 Theme24;
       w = run [Render P, Elapse 1000, RunTimer] (boot 0);
       es' = [Elapse 100, RunTimer, Elapse 5000, RunTimer]
   in mounted w = Some (P, 1)
      \<and> map timer_id (intervals w) = [1]
      \<and> depsChanged P P'
      \<and> cycleRestarted w (render P' w)
      \<and> 1 \<notin> timer_id ` set (timers (run es' (render P' w)))
      \<and> \<not> depsChanged P (P\<lparr>variant := large\<rparr>)
      \<and> timers (render (P\<lparr>variant := large\<rparr>) w) = timers w
      \<and> timers (render (P\<lparr>theme := ELF\<rparr>) w) = timers w
      \<and> intervals (unmount w) = []
      \<and> 1 \<notin> timer_id ` set (timers (run es' (unmount w)))
      \<and> list_all (\<lambda>e. \<not> isRender e) es'
      \<and> tickLog (run es' (unmount w)) = [(3, 1000)]
      \<and> mounted (run es' (unmount w)) = None"
proof -
  define P where "P = appClockProps \<lparr>objectId = 7, getTime = 90061000\<rparr> 3 Theme24"
  define P' where "P' = appClockProps \<lparr>objectId = 7, getTime = 90061000\<rparr> 4 Theme24"
  define w where "w = run [Render P, Elapse 1000, RunTimer] (boot 0)"
  define es' where "es' = [Elapse 100, RunTimer, Elapse 5000, RunTimer]"
  have m: "mounted w = Some (P, 1)" and l: "tickLog w = [(3, 1000)]"
    unfolding w_def P_def by (simp_all add: sample_run)
  have d: "depsChanged P P'" "\<not> depsChanged P (P\<lparr>variant := large\<rparr>)"
    by (simp_all add: depsChanged_def P_def P'_def appClockProps_def)
  have e: "\<forall>e\<in>set es'. \<not> isRender e" "list_all (\<lambda>e. \<not> isRender e) es'"
    by (simp_all add: es'_def)
  from one_interval_per_clock [OF w_def, of P 1 P' es' ELF]
    one_interval_per_clock [OF w_def, of P 1 "P\<lparr>variant := large\<rparr>" es' ELF] m d e l
  show ?thesis
    unfolding Let_def P_def [symmetric] P'_def [symmetric] w_def [symmetric] es'_def [symmetric]
    by simp
qed

text \<open>
  The part of claim C5 that fails: a change of theme does not cancel and restart the
  cycle. The theme is not in the dependency array, so the render keeps the interval with
  id 1 and starts none.
\<close>

theorem theme_change_keeps_the_interval:
  "let P = appClockProps \<lparr>objectId = 7, getTime = 90061000\<rparr> 3 Theme24;
       w = run [Render P, Elapse 1000, RunTimer] (boot 0)
   in \<not> cycleRestarted w (render (P\<lparr>theme := ELF\<rparr>) w)
      \<and> map timer_id (intervals (render (P\<lparr>theme := ELF\<rparr>) w)) = [1]
      \<and> nextId (render (P\<lparr>theme := ELF\<rparr>) w) = nextId w"
  unfolding Let_def sample_run
  by (simp add: cycleRestarted_def render_def depsChanged_def intervals_def appClockProps_def)

subsection \<open>The pulse\<close>

lemma tick_sets_pulse:
  assumes "clock_inv w" and n: "nextTimer (timers w) = Some t" and pt: "period t \<noteq> None"
  shows "\<not> pulse w" and "mounted (runTimer w) \<noteq> None" and "pulse (runTimer w)"
    and "clk (runTimer w) = due t"
    and "\<exists>u\<in>set (timers (runTimer w)). period u = None
           \<and> job u = PulseOffJob (instance_no (runTimer w)) \<and> due u = due t + 100"
    and "\<forall>x\<in>set (intervals (runTimer w)). due x = due t + 1000"
proof -
  define w1 where "w1 = w\<lparr>clk := due t,
      timers := map (\<lambda>u. if timer_id u = timer_id t then u\<lparr>due := due t + 1000\<rparr> else u) (timers w)\<rparr>"
  from tick_shape [OF assms] obtain p where m: "mounted w = Some (p, timer_id t)"
    and q: "\<not> pulse w"
    and r: "runTimer w = tick (instance_no w) (targetDate p) (onTick p) w1"
    by (auto simp: w1_def)
  have f: "timers w1 = map (\<lambda>u. if timer_id u = timer_id t then u\<lparr>due := due t + 1000\<rparr> else u) (timers w)"
    "clk w1 = due t" "nextId w1 = nextId w" "mounted w1 = mounted w"
    "instance_no w1 = instance_no w" "pulse w1 = pulse w"
    by (simp_all add: w1_def)
  from assms(1) have j: "jobs_ok w" by (simp add: clock_inv_def)
  show "\<not> pulse w" by (rule q)
  show "mounted (runTimer w) \<noteq> None" and "pulse (runTimer w)" and "clk (runTimer w) = due t"
    using m by (simp_all add: r tick_fields f)
  show "\<exists>u\<in>set (timers (runTimer w)). period u = None
           \<and> job u = PulseOffJob (instance_no (runTimer w)) \<and> due u = due t + 100"
    by (simp add: r tick_fields f)
  show "\<forall>x\<in>set (intervals (runTimer w)). due x = due t + 1000"
  proof
    fix x assume "x \<in> set (intervals (runTimer w))"
    then have x: "period x \<noteq> None" and "x \<in> set (timers w1)"
      by (auto simp: intervals_def r tick_fields)
    then obtain v where v: "v \<in> set (timers w)"
      "x = (if timer_id v = timer_id t then v\<lparr>due := due t + 1000\<rparr> else v)"
      by (auto simp: f)
    have "timer_id v = timer_id t"
    proof (rule ccontr)
      assume "timer_id v \<noteq> timer_id t"
      with others_are_timeouts [OF j m v(1)] v(2) x show False by simp
    qed
    with v(2) show "due x = due t + 1000" by simp
  qed
qed

lemma pulse_is_short:
  assumes "clock_inv w" and m: "mounted w \<noteq> None" and p: "pulse w"
  shows "\<exists>u. nextTimer (timers w) = Some u \<and> period u = None \<and> due u \<le> clk w + 100"
    and "\<exists>u\<in>set (timers w). period u = None \<and> job u = PulseOffJob (instance_no w)
           \<and> due u \<le> clk w + 100 \<and> (\<forall>x\<in>set (intervals w). due u + 900 \<le> due x)"
proof -
  from assms(1) have j: "jobs_ok w" and pu: "pulse_ok w" by (simp_all add: clock_inv_def)
  from pu m p obtain u where u: "u \<in> set (timers w)" "period u = None"
    "job u = PulseOffJob (instance_no w)"
    "\<forall>x\<in>set (timers w). period x \<noteq> None \<longrightarrow> due u + 900 \<le> due x"
    by (auto simp: pulse_ok_def)
  have soon: "due u \<le> clk w + 100"
    using timeout_is_ok [OF j u(1,2)] by (simp add: timeout_ok_def)
  from u soon show "\<exists>u\<in>set (timers w). period u = None \<and> job u = PulseOffJob (instance_no w)
           \<and> due u \<le> clk w + 100 \<and> (\<forall>x\<in>set (intervals w). due u + 900 \<le> due x)"
    by (auto simp: intervals_def)
  from u(1) obtain n where n: "nextTimer (timers w) = Some n"
    by (cases "nextTimer (timers w)") (auto simp: nextTimer_None)
  note nin = nextTimer_Some(1) [OF n] and first = nextTimer_Some(2) [OF n u(1)]
  have "period n = None"
  proof (rule ccontr)
    assume "period n \<noteq> None"
    with u(4) nin have "due u + 900 \<le> due n" by simp
    with first show False by simp
  qed
  moreover have "due n \<le> clk w + 100"
    using first soon by simp
  ultimately show "\<exists>u. nextTimer (timers w) = Some u \<and> period u = None \<and> due u \<le> clk w + 100"
    using n by simp
qed

lemma clear_ends_pulse:
  assumes "clock_inv w" and n: "nextTimer (timers w) = Some u" and k: "job u = PulseOffJob (instance_no w)"
    and m: "mounted w \<noteq> None"
  shows "\<not> pulse (runTimer w)"
proof -
  from assms(1) have j: "jobs_ok w" by (simp add: clock_inv_def)
  have pt: "period u = None"
  proof (rule ccontr)
    assume "period u \<noteq> None"
    from interval_is_mounted [OF j nextTimer_Some(1) [OF n] this] k show False
      by (auto simp: interval_ok_def)
  qed
  show ?thesis
    using m by (simp add: runTimer_timeout [OF n pt k] pulseOff_fields)
qed

text \<open>
  Claim C6. In every reachable state: when the interval is the next timer to run, the
  pulse flag is clear; running it sets the flag and leaves a timeout due 100 ms later that
  clears it, the next tick being due 1000 ms later. While the flag of the mounted clock is
  set, the next timer to run is a timeout due within 100 ms, and the timeout clearing the
  flag is due at least 900 ms before the next tick. Running that timeout clears the flag.
\<close>

theorem pulse_clears_before_next_tick:
  assumes w: "w = run es (boot t0)"
  shows "(nextTimer (timers w) = Some t \<and> period t \<noteq> None \<longrightarrow>
            \<not> pulse w
            \<and> mounted (runTimer w) \<noteq> None \<and> pulse (runTimer w) \<and> clk (runTimer w) = due t
            \<and> (\<exists>u\<in>set (timers (runTimer w)). period u = None
                  \<and> job u = PulseOffJob (instance_no (runTimer w)) \<and> due u = due t + 100)
            \<and> (\<forall>x\<in>set (intervals (runTimer w)). due x = due t + 1000))
       \<and> (mounted w \<noteq> None \<and> pulse w \<longrightarrow>
            (\<exists>u. nextTimer (timers w) = Some u \<and> period u = None \<and> due u \<le> clk w + 100)
            \<and> (\<exists>u\<in>set (timers w). period u = None \<and> job u = PulseOffJob (instance_no w)
                  \<and> due u \<le> clk w + 100 \<and> (\<forall>x\<in>set (intervals w). due u + 900 \<le> due x)))
       \<and> (mounted w \<noteq> None \<and> nextTimer (timers w) = Some t \<and> job t = PulseOffJob (instance_no w) \<longrightarrow>
            \<not> pulse (runTimer w))"
proof -
  have i: "clock_inv w" unfolding w by (rule clock_inv_reachable)
  show ?thesis
  proof (intro conjI impI)
    assume a: "nextTimer (timers w) = Some t \<and> period t \<noteq> None"
    then have n: "nextTimer (timers w) = Some t" and pt: "period t \<noteq> None" by simp_all
    show "\<not> pulse w" and "mounted (runTimer w) \<noteq> None" and "pulse (runTimer w)"
      and "clk (runTimer w) = due t"
      and "\<exists>u\<in>set (timers (runTimer w)). period u = None
           \<and> job u = PulseOffJob (instance_no (runTimer w)) \<and> due u = due t + 100"
      and "\<forall>x\<in>set (intervals (runTimer w)). due x = due t + 1000"
      by (rule tick_sets_pulse [OF i n pt])+
  next
    assume a: "mounted w \<noteq> None \<and> pulse w"
    then have m: "mounted w \<noteq> None" and p: "pulse w" by simp_all
    show "\<exists>u. nextTimer (timers w) = Some u \<and> period u = None \<and> due u \<le> clk w + 100"
      and "\<exists>u\<in>set (timers w). period u = None \<and> job u = PulseOffJob (instance_no w)
           \<and> due u \<le> clk w + 100 \<and> (\<forall>x\<in>set (intervals w). due u + 900 \<le> due x)"
      by (rule pulse_is_short [OF i m p])+
  next
    assume "mounted w \<noteq> None \<and> nextTimer (timers w) = Some t \<and> job t = PulseOffJob (instance_no w)"
    then show "\<not> pulse (runTimer w)"
      using clear_ends_pulse [OF i] by simp
  qed
qed

lemma sample_mount:
  "run [Render (appClockProps \<lparr>objectId = 7, getTime = 90061000\<rparr> 3 Theme24)] (boot 0)
   = \<lparr>clk = 0, nextId = 2,
      timers = [\<lparr>timer_id = 1, due = 1000, period = Some 1000,
                  job = TickJob 1 \<lparr>objectId = 7, getTime = 90061000\<rparr> (Some 3)\<rparr>],
      instance_no = 1,
      mounted = Some (appClockProps \<lparr>objectId = 7, getTime = 90061000\<rparr> 3 Theme24, 1),
      timeLeft = \<lparr>days = 1, hours = 1, minutes = 1, seconds = 1\<rparr>,
      pulse = False, tickLog = []\<rparr>"
  by (simp add: run_def boot_def render_def runEffect_def setInterval_def newTimer_def
      appClockProps_def Let_def calculateTimeLeft_future)

theorem pulse_clears_before_next_tick_witness:
  "let P = appClockProps \<lparr>objectId = 7, getTime = 90061000\<rparr> 3 Theme24;
       w1 = run [Render P] (boot 0);
       w2 = run [Render P, Elapse 1000, RunTimer] (boot 0);
       t1 = \<lparr>timer_id = 1, due = 1000, period = Some 1000,
              job = TickJob 1 \<lparr>objectId = 7, getTime = 90061000\<rparr> (Some 3)\<rparr>;
       t2 = \<lparr>timer_id = 2, due = 1100, period = None, job = PulseOffJob 1\<rparr>
   in nextTimer (timers w1) = Some t1 \<and> period t1 \<noteq> None
      \<and> \<not> pulse w1 \<and> pulse (runTimer w1) \<and> clk (runTimer w1) = 1000
      \<and> (\<exists>u\<in>set (timers (runTimer w1)). period u = None
            \<and> job u = PulseOffJob (instance_no (runTimer w1)) \<and> due u = 1100)
      \<and> list_all (\<lambda>x. due x = 2000) (intervals (runTimer w1))
      \<and> mounted w2 \<noteq> None \<and> pulse w2
      \<and> (\<exists>u. nextTimer (timers w2) = Some u \<and> period u = None \<and> due u \<le> clk w2 + 100)
      \<and> nextTimer (timers w2) = Some t2 \<and> job t2 = PulseOffJob (instance_no w2)
      \<and> \<not> pulse (runTimer w2)"
proof -
  define P where "P = appClockProps \<lparr>objectId = 7, getTime = 90061000\<rparr> 3 Theme24"
  define w1 where "w1 = run [Render P] (boot 0)"
  define w2 where "w2 = run [Render P, Elapse 1000, RunTimer] (boot 0)"
  define t1 where "t1 = \<lparr>timer_id = 1, due = 1000, period = Some 1000,
              job = TickJob 1 \<lparr>objectId = 7, getTime = 90061000\<rparr> (Some 3)\<rparr>"
  define t2 where "t2 = \<lparr>timer_id = 2, due = 1100, period = None, job = PulseOffJob 1\<rparr>"
  have a: "nextTimer (timers w1) = Some t1" "period t1 \<noteq> None"
    unfolding w1_def P_def t1_def by (simp_all add: sample_mount nextTimer_def)
  have b: "mounted w2 \<noteq> None" "pulse w2" "nextTimer (timers w2) = Some t2"
    "job t2 = PulseOffJob (instance_no w2)" "clk w2 = 1000"
    unfolding w2_def P_def t2_def by (simp_all add: sample_run nextTimer_def)
  have c: "due t1 = 1000" by (simp add: t1_def)
  from pulse_clears_before_next_tick [OF w1_def, of t1] pulse_clears_before_next_tick [OF w2_def, of t2]
    a b c
  show ?thesis
    unfolding Let_def P_def [symmetric] w1_def [symmetric] w2_def [symmetric]
      t1_def [symmetric] t2_def [symmetric]
    by (simp add: list_all_iff)
qed

subsection \<open>Ticks after the target has passed\<close>

text \<open>
  The interval is not stopped when the target is reached: a tick at or after the target
  stores the all-zero duration, and the interval stays in the timer table.
\<close>

lemma tick_after_target:
  assumes w: "w = run es (boot t0)"
    and n: "nextTimer (timers w) = Some t" and pt: "period t \<noteq> None"
    and m: "mounted w = Some (p, tid)" and past: "getTime (targetDate p) \<le> due t"
  shows "timeLeft (runTimer w) = \<lparr>days = 0, hours = 0, minutes = 0, seconds = 0\<rparr>"
    and "map timer_id (intervals (runTimer w)) = [tid]"
proof -
  have i: "clock_inv w" unfolding w by (rule clock_inv_reachable)
  from tick_shape [OF i n pt] m have
    r: "runTimer w = tick (instance_no w) (targetDate p) (onTick p)
          (w\<lparr>clk := due t,
             timers := map (\<lambda>u. if timer_id u = timer_id t then u\<lparr>due := due t + 1000\<rparr> else u)
                         (timers w)\<rparr>)"
    by auto
  show "timeLeft (runTimer w) = \<lparr>days = 0, hours = 0, minutes = 0, seconds = 0\<rparr>"
    using m past by (simp add: r tick_fields calculateTimeLeft_past)
  have "mounted (runTimer w) = Some (p, tid)"
    using m by (simp add: r tick_fields)
  from intervals_mounted [OF clock_inv_runTimer [OF i] this]
  show "map timer_id (intervals (runTimer w)) = [tid]" .
qed

subsection \<open>The callback\<close>

lemma ticking_start:
  assumes i: "clock_inv w0"
    and fresh: "mounted w0 = None \<or> (\<exists>old tid. mounted w0 = Some (old, tid) \<and> depsChanged old p)"
  shows "ticking p cb (clk w0) (tickLog w0) 0 (render p w0)"
proof -
  from i have j: "jobs_ok w0" by (simp add: clock_inv_def)
  have "mounted (render p w0) = Some (p, nextId w0) \<and> tickLog (render p w0) = tickLog w0
        \<and> clk (render p w0) = clk w0
        \<and> (\<forall>x\<in>set (intervals (render p w0)). due x = clk w0 + 1000)"
  proof (cases "mounted w0")
    case None
    then have r: "render p w0 = runEffect p
        (w0\<lparr>instance_no := instance_no w0 + 1,
            timeLeft := \<lparr>days = 0, hours = 0, minutes = 0, seconds = 0\<rparr>, pulse := False\<rparr>)"
      by (simp add: render_def)
    show ?thesis
      using no_interval_unmounted [OF j None]
      by (auto simp: r runEffect_fields intervals_def)
  next
    case (Some a)
    with fresh obtain old tid where m: "mounted w0 = Some (old, tid)" and d: "depsChanged old p"
      by auto
    have r: "render p w0 = runEffect p (clearInterval tid w0)"
      using m d by (simp add: render_def)
    show ?thesis
      using others_are_timeouts [OF j m]
      by (auto simp: r runEffect_fields clearInterval_fields intervals_def)
  qed
  then show ?thesis
    by (simp add: ticking_def depsChanged_def)
qed

lemma ticking_elapse:
  assumes "clock_inv w" and t: "ticking p cb s log0 n w"
  shows "ticking p cb s log0 n (elapse dt w)"
proof -
  from assms(1) have c: "clock_ok w" by (simp add: clock_inv_def)
  from elapse_clk(1) [OF c, where dt = dt] t show ?thesis
    by (auto simp: ticking_def elapse_fields intervals_def)
qed

lemma ticking_render:
  assumes t: "ticking p cb s log0 n w" and u: "\<not> depsChanged p p''"
  shows "ticking p cb s log0 n (render p'' w)"
proof -
  from t obtain p' tid where m: "mounted w = Some (p', tid)" and d: "\<not> depsChanged p p'"
    by (auto simp: ticking_def)
  from d u have "\<not> depsChanged p' p''"
    by (simp add: depsChanged_def)
  then have "render p'' w = w\<lparr>mounted := Some (p'', tid)\<rparr>"
    using m by (simp add: render_def)
  with t u show ?thesis
    by (auto simp: ticking_def intervals_def)
qed

lemma rev_upt_Suc: "rev [1..<Suc (Suc n)] = Suc n # rev [1..<Suc n]"
  by simp

lemma ticking_runTimer:
  assumes i: "clock_inv w" and t: "ticking p cb s log0 n w" and cb: "onTick p = Some cb"
  shows "ticking p cb s log0 n (runTimer w) \<or> ticking p cb s log0 (Suc n) (runTimer w)"
proof (cases "nextTimer (timers w)")
  case None
  with t show ?thesis by (simp add: runTimer_def)
next
  case (Some x)
  from i have c: "clock_ok w" and j: "jobs_ok w" by (simp_all add: clock_inv_def)
  note xin = nextTimer_Some(1) [OF Some]
  have now: "clk w \<le> due x" using c xin by (simp add: clock_ok_def)
  from t obtain p' tid where m: "mounted w = Some (p', tid)" and d: "\<not> depsChanged p p'"
    by (auto simp: ticking_def)
  show ?thesis
  proof (cases "period x = None")
    case True
    from timeout_is_ok [OF j xin True] obtain k where k: "job x = PulseOffJob k"
      by (auto simp: timeout_ok_def)
    have "ticking p cb s log0 n (runTimer w)"
      using t now
      by (auto simp: ticking_def runTimer_timeout [OF Some True k] pulseOff_fields
          due_next_is_clock [OF c Some] intervals_def)
    then show ?thesis ..
  next
    case False
    from tick_shape [OF i Some False] obtain q where
      q: "mounted w = Some (q, timer_id x)"
      and r: "runTimer w = tick (instance_no w) (targetDate q) (onTick q)
                (w\<lparr>clk := due x,
                   timers := map (\<lambda>u. if timer_id u = timer_id x then u\<lparr>due := due x + 1000\<rparr> else u)
                               (timers w)\<rparr>)"
      by auto
    from q m have "q = p'" by simp
    with d cb have call: "onTick q = Some cb" by (simp add: depsChanged_def)
    from t xin False have at: "due x = s + 1000 * (int n + 1)"
      by (simp add: ticking_def intervals_def)
    have log: "tickLog (runTimer w) = (cb, due x) # tickLog w"
      by (simp add: r tick_fields call)
    have "ticking p cb s log0 (Suc n) (runTimer w)"
      unfolding ticking_def
    proof (intro conjI)
      show "\<exists>p' tid. mounted (runTimer w) = Some (p', tid) \<and> \<not> depsChanged p p'"
        using m d by (simp add: r tick_fields)
      show "tickLog (runTimer w) = map (\<lambda>k. (cb, s + 1000 * int k)) (rev [1..<Suc (Suc n)]) @ log0"
        using t by (simp only: log at rev_upt_Suc ticking_def) simp
      show "\<forall>x\<in>set (intervals (runTimer w)). due x = s + 1000 * (int (Suc n) + 1)"
        using tick_sets_pulse(6) [OF i Some False] at by simp
      show "s + 1000 * int (Suc n) \<le> clk (runTimer w)"
        using tick_sets_pulse(4) [OF i Some False] at by simp
    qed
    then show ?thesis ..
  qed
qed

lemma ticking_step:
  assumes "clock_inv w" and "ticking p cb s log0 n w" and "onTick p = Some cb" and "undisturbed p e"
  shows "\<exists>n'. ticking p cb s log0 n' (step e w)"
proof (cases e)
  case (Render p'')
  with assms(4) ticking_render [OF assms(2)] show ?thesis by auto
next
  case Unmount
  with assms(4) show ?thesis by simp
next
  case RunTimer
  with ticking_runTimer [OF assms(1-3)] show ?thesis by auto
next
  case (Elapse dt)
  with ticking_elapse [OF assms(1,2)] show ?thesis by auto
qed

lemma ticking_run:
  assumes "clock_inv w" and "ticking p cb s log0 n w" and "onTick p = Some cb"
    and "\<forall>e\<in>set es. undisturbed p e"
  shows "\<exists>n'. ticking p cb s log0 n' (run es w)"
  using assms
proof (induction es arbitrary: w n)
  case Nil
  then show ?case by (auto simp: run_def)
next
  case (Cons e es)
  from Cons.prems(4) have e: "undisturbed p e" and es: "\<forall>e\<in>set es. undisturbed p e"
    by simp_all
  from ticking_step [OF Cons.prems(1,2,3) e] obtain n1 where "ticking p cb s log0 n1 (step e w)" ..
  from Cons.IH [OF clock_inv_step [OF Cons.prems(1)] this Cons.prems(3) es] show ?case
    by (simp add: run_def)
qed

lemma ticking_bound:
  assumes i: "clock_inv w" and t: "ticking p cb s log0 n w"
  shows "clk w \<le> s + 1000 * (int n + 1)"
proof -
  from i have c: "clock_ok w" and mo: "mounted_ok w" by (simp_all add: clock_inv_def)
  from t obtain p' tid where "mounted w = Some (p', tid)" by (auto simp: ticking_def)
  with mo obtain x where x: "x \<in> set (timers w)" "period x \<noteq> None"
    by (auto simp: mounted_ok_def)
  with t have "due x = s + 1000 * (int n + 1)"
    by (simp add: ticking_def intervals_def)
  moreover have "clk w \<le> due x" using c x(1) by (simp add: clock_ok_def)
  ultimately show ?thesis by simp
qed

text \<open>
  Claim C7. Let the effect run at time \<open>s\<close> for properties with a callback, and let
  only time, timers and renders with the same target and callback follow. Then the
  callback has been invoked at \<open>s + 1000\<close>, \<open>s + 2000\<close>, ..., \<open>s + 1000 n\<close> and at no other
  time, where \<open>s + 1000 n \<le> now \<le> s + 1000 (n + 1)\<close>: once in every second, and not
  more. After an unmount no invocation follows until the next render.
\<close>

theorem callback_once_per_second:
  assumes w0: "w0 = run es0 (boot t0)"
    and fresh: "mounted w0 = None \<or> (\<exists>old tid. mounted w0 = Some (old, tid) \<and> depsChanged old p)"
    and cb: "onTick p = Some cb"
    and es: "\<forall>e\<in>set es. undisturbed p e"
    and w: "w = run es (render p w0)"
  shows "(\<exists>n. tickLog w = map (\<lambda>k. (cb, clk w0 + 1000 * int k)) (rev [1..<Suc n]) @ tickLog w0
              \<and> clk w0 + 1000 * int n \<le> clk w \<and> clk w \<le> clk w0 + 1000 * (int n + 1))
       \<and> ((\<forall>e\<in>set es'. \<not> isRender e) \<longrightarrow> tickLog (run es' (unmount w)) = tickLog w)"
proof
  have i0: "clock_inv w0" unfolding w0 by (rule clock_inv_reachable)
  have i1: "clock_inv (render p w0)" by (rule clock_inv_render [OF i0])
  have i: "clock_inv w" unfolding w by (rule clock_inv_run [OF i1])
  from ticking_run [OF i1 ticking_start [OF i0 fresh] cb es]
  obtain n where n: "ticking p cb (clk w0) (tickLog w0) n w"
    unfolding w by blast
  from n ticking_bound [OF i n]
  show "\<exists>n. tickLog w = map (\<lambda>k. (cb, clk w0 + 1000 * int k)) (rev [1..<Suc n]) @ tickLog w0
              \<and> clk w0 + 1000 * int n \<le> clk w \<and> clk w \<le> clk w0 + 1000 * (int n + 1)"
    by (auto simp: ticking_def)
  show "(\<forall>e\<in>set es'. \<not> isRender e) \<longrightarrow> tickLog (run es' (unmount w)) = tickLog w"
    using silent_after_unmount(1) [OF i] by simp
qed

theorem callback_once_per_second_witness:
  "let P = appClockProps \<lparr>objectId = 7, getTime = 90061000\<rparr> 3 Theme24;
       w0 = run [] (boot 500);
       es = [Elapse 1000, RunTimer, RunTimer, Elapse 700, Render (P\<lparr>theme := ELF\<rparr>), Elapse 5000, RunTimer];
       w = run es (render P w0)
   in mounted w0 = None \<and> onTick P = Some 3 \<and> list_all (undisturbed P) es
      \<and> (\<exists>n. tickLog w = map (\<lambda>k. (3, clk w0 + 1000 * int k)) (rev [1..<Suc n]) @ tickLog w0
              \<and> clk w0 + 1000 * int n \<le> clk w \<and> clk w \<le> clk w0 + 1000 * (int n + 1))
      \<and> tickLog w = [(3, 2500), (3, 1500)]
      \<and> list_all (\<lambda>e. \<not> isRender e) [RunTimer, Elapse 3000, RunTimer]
      \<and> tickLog (run [RunTimer, Elapse 3000, RunTimer] (unmount w)) = tickLog w"
proof -
  define P where "P = appClockProps \<lparr>objectId = 7, getTime = 90061000\<rparr> 3 Theme24"
  define w0 where "w0 = run [] (boot 500)"
  define es where "es = [Elapse 1000, RunTimer, RunTimer, Elapse 700, Render (P\<lparr>theme := ELF\<rparr>), Elapse 5000, RunTimer]"
  define w where "w = run es (render P w0)"
  have a: "mounted w0 = None" "onTick P = Some 3"
    by (simp_all add: w0_def run_def boot_def P_def appClockProps_def)
  have b: "\<forall>e\<in>set es. undisturbed P e" "list_all (undisturbed P) es"
    by (simp_all add: es_def depsChanged_def)
  have c: "\<forall>e\<in>set [RunTimer, Elapse 3000, RunTimer]. \<not> isRender e"
    "list_all (\<lambda>e. \<not> isRender e) [RunTimer, Elapse 3000, RunTimer]"
    by simp_all
  have l: "tickLog w = [(3, 2500), (3, 1500)]"
    unfolding w_def es_def w0_def P_def
    by (simp add: run_def boot_def render_def runEffect_def setInterval_def newTimer_def
      elapse_def nextTimer_def runTimer_def runJob_def tick_def setState_def setTimeout_def
      appClockProps_def Let_def depsChanged_def)
  from callback_once_per_second [OF w0_def disjI1 [OF a(1)] a(2) b(1) w_def, of "[RunTimer, Elapse 3000, RunTimer]"]
    a b c l
  show ?thesis
    unfolding Let_def P_def [symmetric] w0_def [symmetric] es_def [symmetric] w_def [symmetric]
    by simp
qed

section \<open>Properties of the countdown target\<close>

subsection \<open>Years and days\<close>

lemma msPerDay_pos: "0 < msPerDay"
  by (simp add: msPerDay_def)

lemma DaysInYear_cases: "DaysInYear y = 365 \<or> DaysInYear y = 366"
  by (simp add: DaysInYear_def)

lemma div_step:
  fixes x k :: int
  assumes "0 < k"
  shows "(x + 1) div k = x div k + (if (x + 1) mod k = 0 then 1 else 0)"
proof -
  define q r where "q = x div k" and "r = x mod k"
  have r: "0 \<le> r" "r < k" using assms by (simp_all add: r_def)
  have x: "x + 1 = (r + 1) + k * q"
    by (simp add: q_def r_def)
  have quot: "(x + 1) div k = q + (r + 1) div k"
    unfolding x using assms by (simp add: div_mult_self2)
  have rem: "(x + 1) mod k = (r + 1) mod k"
    unfolding x by simp
  show ?thesis
  proof (cases "r + 1 = k")
    case True
    with quot rem assms show ?thesis by (simp add: q_def)
  next
    case False
    with r have small: "0 \<le> r + 1" "r + 1 < k" by simp_all
    then have "(r + 1) div k = 0" and "(r + 1) mod k = r + 1"
      by (simp_all add: div_pos_pos_trivial mod_pos_pos_trivial)
    with quot rem r show ?thesis by (simp add: q_def)
  qed
qed

lemma DayFromYear_next: "DayFromYear (y + 1) = DayFromYear y + DaysInYear y"
proof -
  have a: "(y - 1968) div 4 = (y - 1969) div 4 + (if (y - 1968) mod 4 = 0 then 1 else 0)"
    using div_step [of 4 "y - 1969"] by simp
  have b: "(y - 1900) div 100 = (y - 1901) div 100 + (if (y - 1900) mod 100 = 0 then 1 else 0)"
    using div_step [of 100 "y - 1901"] by simp
  have c: "(y - 1600) div 400 = (y - 1601) div 400 + (if (y - 1600) mod 400 = 0 then 1 else 0)"
    using div_step [of 400 "y - 1601"] by simp
  have m4: "(y - 1968) mod 4 = y mod 4"
    using mod_mult_self1 [of y "- 492" 4] by simp
  have m100: "(y - 1900) mod 100 = y mod 100"
    using mod_mult_self1 [of y "- 19" 100] by simp
  have m400: "(y - 1600) mod 400 = y mod 400"
    using mod_mult_self1 [of y "- 4" 400] by simp
  have d1: "y mod 100 = 0 \<Longrightarrow> y mod 4 = 0"
    using dvd_trans [of 4 100 y] by (simp add: mod_eq_0_iff_dvd)
  have d2: "y mod 400 = 0 \<Longrightarrow> y mod 100 = 0"
    using dvd_trans [of 100 400 y] by (simp add: mod_eq_0_iff_dvd)
  show ?thesis
    using d1 d2 by (auto simp: DayFromYear_def DaysInYear_def a b c m4 m100 m400)
qed

lemma DayFromYear_1970: "DayFromYear 1970 = 0"
  by (simp add: DayFromYear_def)

lemma DayFromYear_growth:
  assumes "y \<le> z"
  shows "DayFromYear y + 365 * (z - y) \<le> DayFromYear z"
    and "DayFromYear z \<le> DayFromYear y + 366 * (z - y)"
  using assms
proof (induction z rule: int_ge_induct)
  case base
  show "DayFromYear y + 365 * (y - y) \<le> DayFromYear y"
    and "DayFromYear y \<le> DayFromYear y + 366 * (y - y)"
    by simp_all
next
  case (step i)
  have "365 \<le> DaysInYear i" and "DaysInYear i \<le> 366"
    using DaysInYear_cases [of i] by auto
  with step
  show "DayFromYear y + 365 * (i + 1 - y) \<le> DayFromYear (i + 1)"
    and "DayFromYear (i + 1) \<le> DayFromYear y + 366 * (i + 1 - y)"
    by (simp_all add: DayFromYear_next)
qed

lemma DayFromYear_mono: "y \<le> z \<Longrightarrow> DayFromYear y \<le> DayFromYear z"
  using DayFromYear_growth(1) [of y z] by simp

lemma TimeFromYear_mono: "y \<le> z \<Longrightarrow> TimeFromYear y \<le> TimeFromYear z"
  using msPerDay_pos by (simp add: TimeFromYear_def DayFromYear_mono)

lemma yearNotAfter_below: "TimeFromYear (yearNotAfter t y) \<le> t"
proof (induction t y rule: yearNotAfter.induct)
  case (1 t y)
  then show ?case
    by (subst yearNotAfter.simps) simp
qed

lemma yearNotAfter_above:
  "t < TimeFromYear (y + 1) \<Longrightarrow> t < TimeFromYear (yearNotAfter t y + 1)"
proof (induction t y rule: yearNotAfter.induct)
  case (1 t y)
  show ?case
  proof (cases "t < TimeFromYear y")
    case True
    with "1.IH" have "t < TimeFromYear (yearNotAfter t (y - 1) + 1)" by simp
    with True show ?thesis by (subst yearNotAfter.simps) simp
  next
    case False
    with "1.prems" show ?thesis by (subst yearNotAfter.simps) simp
  qed
qed

lemma div_upper:
  fixes t m :: int
  assumes "0 < m"
  shows "t < m * (t div m + 1)"
proof -
  have "t = m * (t div m) + t mod m" by simp
  moreover have "t mod m < m" using assms by simp
  ultimately have "t < m * (t div m) + m" by linarith
  then show ?thesis by (simp add: algebra_simps)
qed

lemma year_estimate:
  "t < TimeFromYear (1970 + (if 0 \<le> t then t div (365 * msPerDay) else t div (366 * msPerDay)) + 1)"
proof (cases "0 \<le> t")
  case True
  define q where "q = t div (365 * msPerDay)"
  have q: "0 \<le> q" using True msPerDay_pos by (simp add: q_def pos_imp_zdiv_nonneg_iff)
  have "t < 365 * msPerDay * (q + 1)"
    unfolding q_def using msPerDay_pos by (intro div_upper) simp
  moreover have "365 * (q + 1) \<le> DayFromYear (1970 + q + 1)"
    using DayFromYear_growth(1) [of 1970 "1970 + q + 1"] q by (simp add: DayFromYear_1970)
  then have "msPerDay * (365 * (q + 1)) \<le> msPerDay * DayFromYear (1970 + q + 1)"
    using msPerDay_pos by (simp only: mult_le_cancel_left_pos)
  ultimately have "t < TimeFromYear (1970 + q + 1)"
    by (simp add: TimeFromYear_def mult.assoc mult.left_commute)
  then show ?thesis
    using True by (simp add: q_def)
next
  case False
  define q where "q = t div (366 * msPerDay)"
  have "q < 0"
    using False msPerDay_pos by (simp add: q_def div_neg_pos_less0)
  then have q: "q + 1 \<le> 0" by simp
  have "t < 366 * msPerDay * (q + 1)"
    unfolding q_def using msPerDay_pos by (intro div_upper) simp
  moreover have "366 * (q + 1) \<le> DayFromYear (1970 + q + 1)"
    using DayFromYear_growth(2) [of "1970 + q + 1" 1970] q by (simp add: DayFromYear_1970)
  then have "msPerDay * (366 * (q + 1)) \<le> msPerDay * DayFromYear (1970 + q + 1)"
    using msPerDay_pos by (simp only: mult_le_cancel_left_pos)
  ultimately have "t < TimeFromYear (1970 + q + 1)"
    by (simp add: TimeFromYear_def mult.assoc mult.left_commute)
  then show ?thesis
    using False by (simp add: q_def)
qed

lemma YearFromTime_bounds:
  shows "TimeFromYear (YearFromTime t) \<le> t" and "t < TimeFromYear (YearFromTime t + 1)"
  unfolding YearFromTime_def
  by (rule yearNotAfter_below, rule yearNotAfter_above [OF year_estimate])

lemma YearFromTime_unique:
  assumes "TimeFromYear y \<le> t" and "t < TimeFromYear (y + 1)"
  shows "YearFromTime t = y"
proof (rule ccontr)
  assume "YearFromTime t \<noteq> y"
  then consider "YearFromTime t + 1 \<le> y" | "y + 1 \<le> YearFromTime t" by linarith
  then show False
  proof cases
    case 1
    from TimeFromYear_mono [OF this] assms(1) YearFromTime_bounds(2) [of t] show False by simp
  next
    case 2
    from TimeFromYear_mono [OF this] assms(2) YearFromTime_bounds(1) [of t] show False by simp
  qed
qed

lemma Day_split:
  assumes "0 \<le> r" and "r < msPerDay"
  shows "Day (msPerDay * d + r) = d" and "TimeWithinDay (msPerDay * d + r) = r"
  using assms by (simp_all add: Day_def TimeWithinDay_def div_pos_pos_trivial mod_pos_pos_trivial)

lemma Day_bounds:
  shows "msPerDay * Day t \<le> t" and "t < msPerDay * (Day t + 1)"
proof -
  show "t < msPerDay * (Day t + 1)"
    unfolding Day_def by (rule div_upper [OF msPerDay_pos])
  have "t = msPerDay * (t div msPerDay) + t mod msPerDay" by simp
  moreover have "0 \<le> t mod msPerDay" using msPerDay_pos by simp
  ultimately show "msPerDay * Day t \<le> t" unfolding Day_def by linarith
qed

lemma Day_TimeWithinDay: "t = msPerDay * Day t + TimeWithinDay t"
  by (simp add: Day_def TimeWithinDay_def)

lemma TimeWithinDay_range:
  shows "0 \<le> TimeWithinDay t" and "TimeWithinDay t < msPerDay"
  using msPerDay_pos by (simp_all add: TimeWithinDay_def)

lemma year_of_day:
  assumes "DayFromYear y \<le> Day t" and "Day t < DayFromYear (y + 1)"
  shows "YearFromTime t = y"
proof (rule YearFromTime_unique)
  have "msPerDay * DayFromYear y \<le> msPerDay * Day t"
    using assms(1) msPerDay_pos by (simp only: mult_le_cancel_left_pos)
  with Day_bounds(1) [of t] show "TimeFromYear y \<le> t"
    by (simp add: TimeFromYear_def)
  have "Day t + 1 \<le> DayFromYear (y + 1)" using assms(2) by simp
  then have "msPerDay * (Day t + 1) \<le> msPerDay * DayFromYear (y + 1)"
    using msPerDay_pos by (simp only: mult_le_cancel_left_pos)
  with Day_bounds(2) [of t] show "t < TimeFromYear (y + 1)"
    by (simp add: TimeFromYear_def)
qed

lemma day_of_year:
  shows "DayFromYear (YearFromTime t) \<le> Day t" and "Day t < DayFromYear (YearFromTime t + 1)"
proof -
  define y where "y = YearFromTime t"
  have lo: "msPerDay * DayFromYear y \<le> t" and hi: "t < msPerDay * DayFromYear (y + 1)"
    using YearFromTime_bounds [of t] by (simp_all add: TimeFromYear_def y_def)
  show "DayFromYear y \<le> Day t"
  proof (rule ccontr)
    assume "\<not> DayFromYear y \<le> Day t"
    then have "Day t + 1 \<le> DayFromYear y" by simp
    then have "msPerDay * (Day t + 1) \<le> msPerDay * DayFromYear y"
      using msPerDay_pos by (simp only: mult_le_cancel_left_pos)
    with Day_bounds(2) [of t] lo show False by simp
  qed
  show "Day t < DayFromYear (y + 1)"
  proof (rule ccontr)
    assume "\<not> Day t < DayFromYear (y + 1)"
    then have "DayFromYear (y + 1) \<le> Day t" by simp
    then have "msPerDay * DayFromYear (y + 1) \<le> msPerDay * Day t"
      using msPerDay_pos by (simp only: mult_le_cancel_left_pos)
    with Day_bounds(1) [of t] hi show False by simp
  qed
qed

subsection \<open>December 25\<close>

lemma MakeDay_christmas: "MakeDay y 11 25 = DayFromYear (y + 1) - 7"
  using DaysInYear_cases [of y]
  by (auto simp: MakeDay_def daysBeforeMonth_def DayFromYear_next)

lemma christmas_fields:
  assumes d: "Day t = DayFromYear (y + 1) - 7"
  shows "YearFromTime t = y" and "MonthFromTime t = 11" and "DateFromTime t = 25"
proof -
  have range: "365 \<le> DaysInYear y" "DaysInYear y \<le> 366"
    using DaysInYear_cases [of y] by auto
  show y: "YearFromTime t = y"
    using range by (intro year_of_day) (simp_all add: d DayFromYear_next)
  have w: "DayWithinYear t = DaysInYear y - 7"
    by (simp add: DayWithinYear_def y d DayFromYear_next)
  show m: "MonthFromTime t = 11"
    using DaysInYear_cases [of y] by (auto simp: MonthFromTime_def InLeapYear_def w y)
  show "DateFromTime t = 25"
    using DaysInYear_cases [of y] by (auto simp: DateFromTime_def InLeapYear_def w y m)
qed

lemma on_christmas_day:
  assumes "MonthFromTime t = 11" and "DateFromTime t = 25"
  shows "Day t = DayFromYear (YearFromTime t + 1) - 7"
proof -
  define y where "y = YearFromTime t"
  from assms have "DayWithinYear t = 358 + InLeapYear t"
    by (simp add: DateFromTime_def)
  moreover have "InLeapYear t = DaysInYear y - 365"
    using DaysInYear_cases [of y] by (auto simp: InLeapYear_def y_def)
  ultimately show ?thesis
    by (simp add: DayWithinYear_def DayFromYear_next flip: y_def)
qed

lemma DayFromYear_1969: "DayFromYear 1969 = - 365"
  by (simp add: DayFromYear_def)

lemma year_after_epoch:
  assumes "- msPerDay \<le> t"
  shows "1969 \<le> YearFromTime t"
proof (rule ccontr)
  assume "\<not> 1969 \<le> YearFromTime t"
  then have "YearFromTime t + 1 \<le> 1969" by simp
  from TimeFromYear_mono [OF this] YearFromTime_bounds(2) [of t]
  have "t < TimeFromYear 1969" by simp
  with assms show False
    by (simp add: TimeFromYear_def DayFromYear_1969 msPerDay_def)
qed

lemma christmasLocal_day:
  shows "Day (christmasLocal y) = DayFromYear (y + 1) - 7"
    and "TimeWithinDay (christmasLocal y) = 0"
  unfolding christmasLocal_def
  using Day_split [of 0 "DayFromYear (y + 1) - 7"] msPerDay_pos by simp_all

lemma christmas_local:
  assumes "plainMidnight z y"
  shows "Day (LocalTime z (christmasMidnight z y)) = DayFromYear (y + 1) - 7"
    and "TimeWithinDay (LocalTime z (christmasMidnight z y)) = 0"
    and "offsetUTC z (christmasMidnight z y) = offsetLocal z (christmasLocal y)"
proof -
  have l: "LocalTime z (christmasMidnight z y) = christmasLocal y"
    using assms by (simp add: plainMidnight_def)
  show "Day (LocalTime z (christmasMidnight z y)) = DayFromYear (y + 1) - 7"
    and "TimeWithinDay (LocalTime z (christmasMidnight z y)) = 0"
    unfolding l by (rule christmasLocal_day)+
  show "offsetUTC z (christmasMidnight z y) = offsetLocal z (christmasLocal y)"
    using l by (simp add: LocalTime_def christmasMidnight_def UTC_def)
qed

lemma christmas_getters:
  assumes "plainMidnight z y"
  shows "getFullYear z (christmasMidnight z y) = y"
    and "getMonth z (christmasMidnight z y) = 11"
    and "getDate z (christmasMidnight z y) = 25"
  unfolding getFullYear_def getMonth_def getDate_def
  by (rule christmas_fields [OF christmas_local(1) [OF assms]])+

lemma newDate_christmas:
  assumes "y < 0 \<or> 99 < y"
  shows "newDate z y 11 25 = TimeClip (christmasMidnight z y)"
proof -
  have "(if 0 \<le> y \<and> y \<le> 99 then 1900 + y else y) = y"
    using assms by auto
  then show ?thesis
    by (simp add: newDate_def Let_def MakeDay_christmas MakeDate_def MakeTime_def
        christmasMidnight_def christmasLocal_def mult.commute)
qed

lemma setFullYear_christmas:
  assumes "plainMidnight z y"
  shows "setFullYear z (christmasMidnight z y) y' = TimeClip (christmasMidnight z y')"
proof -
  have m: "MonthFromTime (LocalTime z (christmasMidnight z y)) = 11"
    and d: "DateFromTime (LocalTime z (christmasMidnight z y)) = 25"
    by (rule christmas_fields [OF christmas_local(1) [OF assms]])+
  have "setFullYear z (christmasMidnight z y) y'
          = TimeClip (UTC z (MakeDate (DayFromYear (y' + 1) - 7) 0))"
    unfolding setFullYear_def Let_def m d christmas_local(2) [OF assms] MakeDay_christmas ..
  then show ?thesis
    by (simp add: MakeDate_def christmasMidnight_def christmasLocal_def mult.commute)
qed

lemma christmas_in_range:
  assumes n0: "0 \<le> now" and n1: "now \<le> 8640000000000000 - 734 * msPerDay"
    and zn: "\<bar>offsetUTC z now\<bar> \<le> msPerDay"
    and y: "y = getFullYear z now"
    and z0: "\<bar>offsetLocal z (christmasLocal y)\<bar> \<le> msPerDay"
    and z1: "\<bar>offsetLocal z (christmasLocal (y + 1))\<bar> \<le> msPerDay"
  shows "TimeClip (christmasMidnight z y) = Some (christmasMidnight z y)"
    and "TimeClip (christmasMidnight z (y + 1)) = Some (christmasMidnight z (y + 1))"
    and "now < christmasMidnight z (y + 1)"
proof -
  define L where "L = LocalTime z now"
  define D0 D1 D2 where "D0 = DayFromYear y" and "D1 = DayFromYear (y + 1)"
    and "D2 = DayFromYear (y + 1 + 1)"
  define a b c where "a = offsetUTC z now" and "b = offsetLocal z (christmasLocal y)"
    and "c = offsetLocal z (christmasLocal (y + 1))"
  have yL: "y = YearFromTime L" by (simp add: y getFullYear_def L_def)
  have lo: "86400000 * D0 \<le> L" and hi: "L < 86400000 * D1"
    using YearFromTime_bounds [of L] by (simp_all add: TimeFromYear_def yL D0_def D1_def msPerDay_def)
  have s1: "D0 + 365 \<le> D1" "D1 \<le> D0 + 366"
    using DaysInYear_cases [of y] by (auto simp: D0_def D1_def DayFromYear_next)
  have "D2 = D1 + DaysInYear (y + 1)"
    unfolding D1_def D2_def by (rule DayFromYear_next)
  then have s2: "D1 + 365 \<le> D2" "D2 \<le> D1 + 366"
    using DaysInYear_cases [of "y + 1"] by auto
  have L: "L = now + a" by (simp add: L_def LocalTime_def a_def)
  have z': "- 86400000 \<le> a" "a \<le> 86400000" "- 86400000 \<le> b" "b \<le> 86400000"
    "- 86400000 \<le> c" "c \<le> 86400000"
    using zn z0 z1 by (simp_all add: msPerDay_def abs_le_iff a_def b_def c_def)
  have n1': "now \<le> 8640000000000000 - 734 * 86400000"
    using n1 by (simp add: msPerDay_def)
  have X: "christmasMidnight z y = 86400000 * (D1 - 7) - b"
    and X': "christmasMidnight z (y + 1) = 86400000 * (D2 - 7) - c"
    by (simp_all only: christmasMidnight_def christmasLocal_def UTC_def msPerDay_def
        D1_def D2_def b_def c_def)
  have "\<bar>christmasMidnight z y\<bar> \<le> 8640000000000000"
    unfolding X using lo hi s1 L z' n0 n1' by simp
  then show "TimeClip (christmasMidnight z y) = Some (christmasMidnight z y)"
    by (simp add: TimeClip_def)
  have "\<bar>christmasMidnight z (y + 1)\<bar> \<le> 8640000000000000"
    unfolding X' using lo hi s1 s2 L z' n0 n1' by simp
  then show "TimeClip (christmasMidnight z (y + 1)) = Some (christmasMidnight z (y + 1))"
    by (simp add: TimeClip_def)
  show "now < christmasMidnight z (y + 1)"
    unfolding X' using hi s2 L z' by simp
qed

lemma fixedOffset_plain:
  assumes "\<bar>c\<bar> \<le> msPerDay"
  shows "plainMidnight (fixedOffset c) y"
  using assms by (simp add: plainMidnight_def fixedOffset_def LocalTime_def christmasMidnight_def UTC_def)

text \<open>
  Claim C9. The current instant lies between the epoch and two years before the end of
  the range of \<^verbatim>\<open>Date\<close>, the offset in force is at most a day, and local midnight on
  December 25 is plain in the current local year and in the next one. Then the target is
  local midnight on December 25 of the current year when the current instant is not after
  it, and local midnight on December 25 of the next year otherwise; both are what
  \<^verbatim>\<open>getFullYear\<close>, \<^verbatim>\<open>getMonth\<close> and \<^verbatim>\<open>getDate\<close> read as December 25, at time 0 of the day,
  each with the offset in force at that instant, and the second one is in the future. So
  at any instant after this year's midnight the target is the Christmas of the following
  year; such is every instant that reads as December 25 after time 0 of the day while the
  offset of that day's midnight is in force.
\<close>

theorem targetChristmas_next_christmas:
  assumes n0: "0 \<le> now" and n1: "now \<le> 8640000000000000 - 734 * msPerDay"
    and zn: "\<bar>offsetUTC z now\<bar> \<le> msPerDay"
    and p0: "plainMidnight z (getFullYear z now)"
    and p1: "plainMidnight z (getFullYear z now + 1)"
  shows "let y = getFullYear z now;
             X = christmasMidnight z y;
             X' = christmasMidnight z (y + 1)
         in targetChristmas z now = Some (if now \<le> X then X else X')
            \<and> getFullYear z X = y \<and> getMonth z X = 11 \<and> getDate z X = 25
            \<and> TimeWithinDay (LocalTime z X) = 0
            \<and> getFullYear z X' = y + 1 \<and> getMonth z X' = 11 \<and> getDate z X' = 25
            \<and> TimeWithinDay (LocalTime z X') = 0
            \<and> now < X'
            \<and> (X < now \<longrightarrow> targetChristmas z now = Some X')
            \<and> (getMonth z now = 11 \<and> getDate z now = 25 \<and> 0 < TimeWithinDay (LocalTime z now)
                 \<and> offsetUTC z now = offsetUTC z X
                 \<longrightarrow> X < now \<and> targetChristmas z now = Some X')"
proof -
  define y where "y = getFullYear z now"
  define X X' where "X = christmasMidnight z y" and "X' = christmasMidnight z (y + 1)"
  have q0: "plainMidnight z y" and q1: "plainMidnight z (y + 1)"
    using p0 p1 by (simp_all add: y_def)
  have z0: "\<bar>offsetLocal z (christmasLocal y)\<bar> \<le> msPerDay"
    and z1: "\<bar>offsetLocal z (christmasLocal (y + 1))\<bar> \<le> msPerDay"
    using q0 q1 by (simp_all add: plainMidnight_def)
  note range = christmas_in_range [OF n0 n1 zn y_def z0 z1]
  have "- msPerDay \<le> LocalTime z now"
    using n0 zn by (simp add: LocalTime_def abs_le_iff)
  from year_after_epoch [OF this] have "99 < y"
    by (simp add: y_def getFullYear_def)
  then have new: "newDate z y 11 25 = Some X"
    by (simp add: newDate_christmas range(1) X_def)
  have set: "setFullYear z X (y + 1) = Some X'"
    by (simp add: X_def X'_def setFullYear_christmas [OF q0] range(2))
  have target: "targetChristmas z now = Some (if now \<le> X then X else X')"
    by (simp add: targetChristmas_def Let_def new set flip: y_def)
  have on_day: "X < now \<and> targetChristmas z now = Some X'"
    if "getMonth z now = 11 \<and> getDate z now = 25 \<and> 0 < TimeWithinDay (LocalTime z now)
        \<and> offsetUTC z now = offsetUTC z X"
  proof -
    define L where "L = LocalTime z now"
    from that have "Day L = DayFromYear (y + 1) - 7" and pos: "0 < TimeWithinDay L"
      using on_christmas_day [of L] by (simp_all add: getMonth_def getDate_def L_def y_def getFullYear_def)
    with Day_TimeWithinDay [of L] have "christmasLocal y < L"
      by (simp add: christmasLocal_def)
    moreover have "offsetUTC z now = offsetLocal z (christmasLocal y)"
      using that christmas_local(3) [OF q0] by (simp add: X_def)
    ultimately have "X < now"
      by (simp add: X_def christmasMidnight_def UTC_def L_def LocalTime_def)
    with target show ?thesis by simp
  qed
  show ?thesis
    unfolding Let_def y_def [symmetric] X_def [symmetric] X'_def [symmetric]
    using target on_day range(3)
    by (simp add: X_def X'_def christmas_getters [OF q0] christmas_getters [OF q1]
        christmas_local(2) [OF q0] christmas_local(2) [OF q1])
qed

theorem targetChristmas_next_christmas_witness:
  "(0::int) \<le> 1719835200000 \<and> (1719835200000::int) \<le> 8640000000000000 - 734 * msPerDay
   \<and> offsetUTC easternTime 1719835200000 = - 14400000 \<and> \<bar>- 14400000\<bar> \<le> msPerDay
   \<and> getFullYear easternTime 1719835200000 = 2024
   \<and> plainMidnight easternTime 2024 \<and> plainMidnight easternTime 2025
   \<and> offsetLocal easternTime (christmasLocal 2024) = - 18000000
   \<and> christmasMidnight easternTime 2024 = 1735102800000
   \<and> christmasMidnight easternTime 2025 = 1766638800000
   \<and> targetChristmas easternTime 1719835200000 = Some 1735102800000
   \<and> (0::int) \<le> 1735102800001 \<and> (1735102800001::int) \<le> 8640000000000000 - 734 * msPerDay
   \<and> getFullYear easternTime 1735102800001 = 2024
   \<and> getMonth easternTime 1735102800001 = 11 \<and> getDate easternTime 1735102800001 = 25
   \<and> 0 < TimeWithinDay (LocalTime easternTime 1735102800001)
   \<and> offsetUTC easternTime 1735102800001 = offsetUTC easternTime 1735102800000
   \<and> targetChristmas easternTime 1735102800001 = Some 1766638800000"
proof -
  have h: "(0::int) \<le> 1719835200000" "(1719835200000::int) \<le> 8640000000000000 - 734 * msPerDay"
    "(0::int) \<le> 1735102800001" "(1735102800001::int) \<le> 8640000000000000 - 734 * msPerDay"
    by (simp_all add: msPerDay_def)
  have o: "offsetUTC easternTime 1719835200000 = - 14400000"
    "offsetUTC easternTime 1735102800001 = - 18000000"
    "offsetUTC easternTime 1735102800000 = - 18000000"
    by (simp_all add: easternTime_def)
  have b: "\<bar>offsetUTC easternTime 1719835200000\<bar> \<le> msPerDay"
    "\<bar>offsetUTC easternTime 1735102800001\<bar> \<le> msPerDay" "\<bar>- 14400000\<bar> \<le> msPerDay"
    by (simp_all add: o msPerDay_def)
  have l: "LocalTime easternTime 1719835200000 = 1719820800000"
    "LocalTime easternTime 1735102800001 = 1735084800001"
    by (simp_all add: LocalTime_def o)
  have y1: "getFullYear easternTime 1719835200000 = 2024"
    unfolding getFullYear_def l
    by (rule year_of_day) (simp_all add: Day_def msPerDay_def DayFromYear_def)
  have d: "Day 1735084800001 = DayFromYear (2024 + 1) - 7"
    by (simp add: Day_def msPerDay_def DayFromYear_def)
  have y2: "getFullYear easternTime 1735102800001 = 2024"
    and m: "getMonth easternTime 1735102800001 = 11" and dt: "getDate easternTime 1735102800001 = 25"
    unfolding getFullYear_def getMonth_def getDate_def l
    by (rule christmas_fields [OF d])+
  have c: "christmasLocal 2024 = 1735084800000" "christmasLocal 2025 = 1766620800000"
    by (simp_all add: christmasLocal_def msPerDay_def DayFromYear_def)
  have ol: "offsetLocal easternTime 1735084800000 = - 18000000"
    "offsetLocal easternTime 1766620800000 = - 18000000"
    by (simp_all add: easternTime_def)
  have x: "christmasMidnight easternTime 2024 = 1735102800000"
    "christmasMidnight easternTime 2025 = 1766638800000"
    by (simp_all add: christmasMidnight_def UTC_def ol c)
  have p: "plainMidnight easternTime 2024" "plainMidnight easternTime 2025"
    unfolding plainMidnight_def x c ol
    by (simp_all add: LocalTime_def easternTime_def msPerDay_def)
  have tw: "0 < TimeWithinDay (LocalTime easternTime 1735102800001)"
    unfolding l by (simp add: TimeWithinDay_def msPerDay_def)
  have p1: "plainMidnight easternTime (getFullYear easternTime 1719835200000)"
    "plainMidnight easternTime (getFullYear easternTime 1719835200000 + 1)"
    and p2: "plainMidnight easternTime (getFullYear easternTime 1735102800001)"
    "plainMidnight easternTime (getFullYear easternTime 1735102800001 + 1)"
    by (simp_all add: y1 y2 p)
  from targetChristmas_next_christmas [OF h(1,2) b(1) p1]
    targetChristmas_next_christmas [OF h(3,4) b(2) p2]
  show ?thesis
    unfolding Let_def
    using h o b y1 y2 m dt p c ol x tw by simp
qed

section \<open>Properties of the image generation handler\<close>

text \<open>
  Claim C10, as the code has it. With an uploaded image, a rejected call leaves
  \<open>uploadedImage\<close> and \<open>generatedImage\<close> as they were, sets the state to \<open>ERROR\<close> and
  stores the error's message, or the fixed text when that message is empty; a fulfilled
  call stores the result in \<open>generatedImage\<close>, sets the state to \<open>COMPLETE\<close> and leaves
  \<open>uploadedImage\<close> as it was. The same holds of the settling step on any state.
\<close>

theorem handleGenerate_outcomes:
  "(uploadedImage s = Some img \<and> img \<noteq> [] \<and> gen img (appTheme s) = Inl e \<longrightarrow>
      uploadedImage (handleGenerate gen s) = uploadedImage s
      \<and> generatedImage (handleGenerate gen s) = generatedImage s
      \<and> appState (handleGenerate gen s) = ERROR
      \<and> errorMessage (handleGenerate gen s)
          = Some (if message e \<noteq> [] then message e else ''An unexpected error occurred.''))
   \<and> (uploadedImage s = Some img \<and> img \<noteq> [] \<and> gen img (appTheme s) = Inr r \<longrightarrow>
      uploadedImage (handleGenerate gen s) = uploadedImage s
      \<and> generatedImage (handleGenerate gen s) = Some r
      \<and> appState (handleGenerate gen s) = COMPLETE)
   \<and> uploadedImage (handleGenerate_settled (Inl e) s') = uploadedImage s'
   \<and> generatedImage (handleGenerate_settled (Inl e) s') = generatedImage s'
   \<and> appState (handleGenerate_settled (Inl e) s') = ERROR
   \<and> uploadedImage (handleGenerate_settled (Inr r) s') = uploadedImage s'
   \<and> generatedImage (handleGenerate_settled (Inr r) s') = Some r
   \<and> appState (handleGenerate_settled (Inr r) s') = COMPLETE"
  by (simp add: handleGenerate_def handleGenerate_settled_def)

theorem handleGenerate_outcomes_witness:
  "let s = \<lparr>appState = IDLE, appTheme = ELF, uploadedImage = Some ''data:image/png;base64,AAAA'',
             generatedImage = None, errorMessage = None\<rparr>;
       failing = (\<lambda>img th. Inl \<lparr>message = ''Access Denied: API Key invalid or expired.''\<rparr>);
       working = (\<lambda>img th. Inr ''data:image/png;base64,BBBB'')
   in uploadedImage s = Some ''data:image/png;base64,AAAA''
      \<and> appState (handleGenerate failing s) = ERROR
      \<and> errorMessage (handleGenerate failing s) = Some ''Access Denied: API Key invalid or expired.''
      \<and> generatedImage (handleGenerate failing s) = None
      \<and> uploadedImage (handleGenerate failing s) = uploadedImage s
      \<and> appState (handleGenerate working s) = COMPLETE
      \<and> generatedImage (handleGenerate working s) = Some ''data:image/png;base64,BBBB''
      \<and> uploadedImage (handleGenerate working s) = uploadedImage s"
  using handleGenerate_outcomes
    [of "\<lparr>appState = IDLE, appTheme = ELF, uploadedImage = Some ''data:image/png;base64,AAAA'',
             generatedImage = None, errorMessage = None\<rparr>"
        "''data:image/png;base64,AAAA''"
        "\<lambda>img th. Inl \<lparr>message = ''Access Denied: API Key invalid or expired.''\<rparr>"
        "\<lparr>message = ''Access Denied: API Key invalid or expired.''\<rparr>"]
    handleGenerate_outcomes
    [of "\<lparr>appState = IDLE, appTheme = ELF, uploadedImage = Some ''data:image/png;base64,AAAA'',
             generatedImage = None, errorMessage = None\<rparr>"
        "''data:image/png;base64,AAAA''"
        "\<lambda>img th. Inr ''data:image/png;base64,BBBB''" _ "''data:image/png;base64,BBBB''"]
  by (simp add: Let_def)

text \<open>
  The part of claim C10 that fails: for an error with an empty message the stored text is
  not the error's message but the fallback.
\<close>

theorem handleGenerate_empty_message:
  "let s = \<lparr>appState = IDLE, appTheme = ELF, uploadedImage = Some ''data:image/png;base64,AAAA'',
             generatedImage = None, errorMessage = None\<rparr>;
       e = \<lparr>message = ''''\<rparr>
   in errorMessage (handleGenerate (\<lambda>img th. Inl e) s) \<noteq> Some (message e)
      \<and> errorMessage (handleGenerate (\<lambda>img th. Inl e) s) = Some ''An unexpected error occurred.''"
  by (simp add: Let_def handleGenerate_def handleGenerate_settled_def)

end
